theory Spec2Isabelle
  imports Main "HOL-Library.Sublist" "HOL-Library.Word"
begin

section \<open>Strings and paths\<close>

text \<open>
  The component \<^verbatim>\<open>FileProcessor\<close> exists in several variants in the repository:
  src/components/FileProcessor.tsx, two in part_000 (lines 1 to 376 and 376 to 627), one
  in part_001 (lines 1 to 610) and two in part_002 (lines 1 to 362 and 362 to 1069).
  All but the first share the path helper \<^verbatim>\<open>normalizeFilePath\<close> (part_000 lines 65
  and 425, part_001 line 184, part_002 lines 58 and 595); they differ in the entry
  resolver and in \<^verbatim>\<open>processFiles\<close>. JavaScript strings are modelled as \<^typ>\<open>string\<close>; the model
  covers the characters of that type.
\<close>

abbreviation slash :: char where
  "slash \<equiv> CHR ''/''"

abbreviation backslash :: char where
  "backslash \<equiv> CHR 0x5C"

text \<open>\<^verbatim>\<open>path.replace(/\\/g, '/')\<close>: every backslash becomes a slash.\<close>

definition replace_backslashes :: "string \<Rightarrow> string" where
  "replace_backslashes p = map (\<lambda>c. if c = backslash then slash else c) p"

text \<open>\<^verbatim>\<open>.replace(/^\/+/, '')\<close>: the leading run of slashes is removed.\<close>

definition strip_leading_slashes :: "string \<Rightarrow> string" where
  "strip_leading_slashes p = dropWhile (\<lambda>c. c = slash) p"

text \<open>\<^verbatim>\<open>.replace(/\/+/g, '/')\<close>: every run of slashes becomes one slash.\<close>

fun collapse_slashes :: "string \<Rightarrow> string" where
  "collapse_slashes [] = []"
| "collapse_slashes [c] = [c]"
| "collapse_slashes (c # d # cs) =
     (if c = slash \<and> d = slash then collapse_slashes (d # cs)
      else c # collapse_slashes (d # cs))"

definition normalizeFilePath :: "string \<Rightarrow> string" where
  "normalizeFilePath path =
     collapse_slashes (strip_leading_slashes (replace_backslashes path))"

text \<open>
  \<^verbatim>\<open>s.split('/')\<close>: the pieces between slashes; the empty string gives one empty
  piece, and the result is never empty.
\<close>

fun split_slash :: "string \<Rightarrow> string list" where
  "split_slash [] = [[]]"
| "split_slash (c # cs) =
     (if c = slash then [] # split_slash cs
      else (case split_slash cs of
              [] \<Rightarrow> [[c]]
            | w # ws \<Rightarrow> (c # w) # ws))"

text \<open>
  Reading a JavaScript array at an index: \<^verbatim>\<open>undefined\<close> (here \<open>None\<close>) outside
  the array, also at a negative index.
\<close>

definition js_index :: "'a list \<Rightarrow> int \<Rightarrow> 'a option" where
  "js_index xs i = (if 0 \<le> i \<and> i < int (length xs) then Some (xs ! nat i) else None)"

text \<open>
  The loop of the resolver's callback (part_001 lines 200 to 205), from index \<open>i\<close> on:
  \<^verbatim>\<open>for (let i = 1; i <= searchParts.length; i++)
    if (parts[parts.length - i] !== searchParts[searchParts.length - i]) return false;
  return true;\<close>
\<close>

function matchFromEnd :: "string list \<Rightarrow> string list \<Rightarrow> nat \<Rightarrow> bool" where
  "matchFromEnd parts searchParts i =
     (if i \<le> length searchParts then
        (if js_index parts (int (length parts) - int i)
              \<noteq> js_index searchParts (int (length searchParts) - int i)
         then False
         else matchFromEnd parts searchParts (Suc i))
      else True)"
  by pat_completeness auto
termination
  by (relation "measure (\<lambda>(parts, searchParts, i). Suc (length searchParts) - i)") auto

declare matchFromEnd.simps [simp del]

text \<open>The callback given to \<^verbatim>\<open>allFiles.find\<close>, for a normalized entry path \<open>f\<close>.\<close>

definition tailMatches :: "string \<Rightarrow> string \<Rightarrow> bool" where
  "tailMatches normalizedSearchPath f =
     matchFromEnd (split_slash f) (split_slash normalizedSearchPath) 1"

text \<open>No two neighbouring characters are both slashes.\<close>

fun no_double_slash :: "string \<Rightarrow> bool" where
  "no_double_slash [] = True"
| "no_double_slash [c] = True"
| "no_double_slash (c # d # cs) = (\<not> (c = slash \<and> d = slash) \<and> no_double_slash (d # cs))"

section \<open>The source archive\<close>

text \<open>
  A loaded JSZip archive is its \<^verbatim>\<open>files\<close> object: the entries in the order
  \<^verbatim>\<open>Object.keys(zip.files)\<close> lists them, each under its stored path. An entry
  is a file or a directory marker.
\<close>

type_synonym bytes = "8 word list"

record zip_object =
  zname :: string
  dir :: bool
  content :: bytes

type_synonym jszip = "zip_object list"

text \<open>
  \<^verbatim>\<open>zip.file(name)\<close> with a string: the entry stored under exactly \<open>name\<close>,
  and \<^verbatim>\<open>null\<close> when there is none or when it is a directory.
\<close>

definition zip_file :: "jszip \<Rightarrow> string \<Rightarrow> zip_object option" where
  "zip_file sourceZip n =
     (case find (\<lambda>e. zname e = n) sourceZip of
        None \<Rightarrow> None
      | Some obj \<Rightarrow> if dir obj then None else Some obj)"

definition zip_keys :: "jszip \<Rightarrow> string list" where
  "zip_keys sourceZip = map zname sourceZip"

section \<open>The entry resolvers\<close>

text \<open>
  \<^verbatim>\<open>findFileInZip\<close> of the variants that match path segments from the end
  (part_000 lines 69 to 94, part_001 lines 188 to 209, part_002 lines 599 to 620). The test
  \<^verbatim>\<open>matchingFile ? zip.file(matchingFile) : null\<close> is false for
  \<^verbatim>\<open>undefined\<close> and for the empty string.
\<close>

definition findFileInZip :: "jszip \<Rightarrow> string \<Rightarrow> zip_object option" where
  "findFileInZip sourceZip searchPath =
     (let normalizedSearchPath = normalizeFilePath searchPath in
      case zip_file sourceZip normalizedSearchPath of
        Some file \<Rightarrow> Some file
      | None \<Rightarrow>
          (let allFiles = map normalizeFilePath (zip_keys sourceZip);
               matchingFile = find (tailMatches normalizedSearchPath) allFiles
           in case matchingFile of
                None \<Rightarrow> None
              | Some m \<Rightarrow> if m = [] then None else zip_file sourceZip m))"

text \<open>
  \<^verbatim>\<open>s.replace(pat, rep)\<close> with a string pattern replaces the first occurrence
  only.
\<close>

fun replace_first :: "string \<Rightarrow> string \<Rightarrow> string \<Rightarrow> string" where
  "replace_first pat rep [] = (if pat = [] then rep else [])"
| "replace_first pat rep (c # cs) =
     (if prefix pat (c # cs) then rep @ drop (length pat) (c # cs)
      else c # replace_first pat rep cs)"

text \<open>
  \<^verbatim>\<open>findFileInZip\<close> of the older variants (part_000 lines 430 to 451, part_002
  lines 63 to 84), which try the directory \<^verbatim>\<open>MainTestFolder\<close> and compare the end
  of the path as a string.
\<close>

definition findFileInZip_MainTestFolder :: "jszip \<Rightarrow> string \<Rightarrow> zip_object option" where
  "findFileInZip_MainTestFolder sourceZip searchPath =
     (let normalizedSearchPath = normalizeFilePath searchPath in
      case zip_file sourceZip normalizedSearchPath of
        Some file \<Rightarrow> Some file
      | None \<Rightarrow>
     (case zip_file sourceZip (''MainTestFolder/'' @ normalizedSearchPath) of
        Some file \<Rightarrow> Some file
      | None \<Rightarrow>
     (case (if prefix ''MainTestFolder/'' normalizedSearchPath
            then zip_file sourceZip (replace_first ''MainTestFolder/'' [] normalizedSearchPath)
            else None) of
        Some file \<Rightarrow> Some file
      | None \<Rightarrow>
          (let allFiles = map normalizeFilePath (zip_keys sourceZip);
               matchingFile = find (\<lambda>f. suffix normalizedSearchPath f) allFiles
           in case matchingFile of
                None \<Rightarrow> None
              | Some m \<Rightarrow> if m = [] then None else zip_file sourceZip m))))"

text \<open>
  The entries of a TAR archive as the reader loop would see them: the values
  \<^verbatim>\<open>tarReader.next()\<close> returns while \<^verbatim>\<open>tarReader.hasNext()\<close> holds. A
  value may be missing (\<open>None\<close>); an entry has a name and a buffer.
\<close>

record tar_entry =
  tname :: string
  buffer :: bytes

type_synonym tar = "tar_entry option list"

text \<open>
  The loop of \<^verbatim>\<open>findFileInTar\<close> (part_000 lines 100 to 121, part_001 lines 215 to
  235, part_002 lines 626 to 646) over such entries: the first entry with a non-empty name
  whose normalized name matches from the end.
\<close>

fun findEntryInTar :: "tar \<Rightarrow> string \<Rightarrow> tar_entry option" where
  "findEntryInTar [] normalizedSearchPath = None"
| "findEntryInTar (None # rest) normalizedSearchPath = findEntryInTar rest normalizedSearchPath"
| "findEntryInTar (Some entry # rest) normalizedSearchPath =
     (if tname entry = [] then findEntryInTar rest normalizedSearchPath
      else if matchFromEnd (split_slash (normalizeFilePath (tname entry)))
                (split_slash normalizedSearchPath) 1
           then Some entry
           else findEntryInTar rest normalizedSearchPath)"

text \<open>
  The object \<^verbatim>\<open>new Tar(new Uint8Array(tar))\<close> that the loop reads from. The code
  calls \<^verbatim>\<open>hasNext\<close> and \<^verbatim>\<open>next\<close> on it. The package tar-js, from which
  \<^verbatim>\<open>Tar\<close> is imported, only writes archives: its objects have no such methods,
  and the first call \<^verbatim>\<open>tarReader.hasNext()\<close> throws a \<^verbatim>\<open>TypeError\<close>. This is
  the reader \<open>None\<close>. The reader \<open>Some t\<close> is an object with the two methods that
  yields the entries \<open>t\<close>.
\<close>

type_synonym tar_reader = "tar option"

text \<open>
  The matching policy in the words of the specification: the first entry whose
  normalized path equals the normalized search path, and otherwise the first entry, in
  listing order, whose normalized path ends with the segments of the search path.
\<close>

definition resolve_spec :: "jszip \<Rightarrow> string \<Rightarrow> zip_object option" where
  "resolve_spec entries searchPath =
     (let n = normalizeFilePath searchPath in
      case find (\<lambda>e. normalizeFilePath (zname e) = n) entries of
        Some e \<Rightarrow> Some e
      | None \<Rightarrow>
          find (\<lambda>e. suffix (split_slash n) (split_slash (normalizeFilePath (zname e)))) entries)"

section \<open>JSON values\<close>

text \<open>
  The value \<^verbatim>\<open>JSON.parse\<close> returns. The code only tests a number for truth and
  turns it into text, so a number is kept as the text JavaScript prints for it; zero,
  also the negative one, prints as \<^verbatim>\<open>0\<close>. A value that may be
  \<^verbatim>\<open>undefined\<close> is an optional value, and \<open>None\<close> is \<^verbatim>\<open>undefined\<close>.
\<close>

datatype json = JNull | JBool bool | JNum string | JStr string | JArr "json list"
  | JObj "(string \<times> json) list"

text \<open>Reading a property: of an object, the last member with that key.\<close>

fun js_get :: "json \<Rightarrow> string \<Rightarrow> json option" where
  "js_get (JObj kvs) k = map_of (rev kvs) k"
| "js_get v k = None"

fun truthy :: "json \<Rightarrow> bool" where
  "truthy JNull = False"
| "truthy (JBool b) = b"
| "truthy (JNum n) = (n \<noteq> ''0'')"
| "truthy (JStr s) = (s \<noteq> [])"
| "truthy (JArr xs) = True"
| "truthy (JObj kvs) = True"

text \<open>\<^verbatim>\<open>Array.isArray(v)\<close>.\<close>

fun isArray :: "json \<Rightarrow> bool" where
  "isArray (JArr xs) = True"
| "isArray v = False"

text \<open>\<^verbatim>\<open>typeof v === 'object'\<close>.\<close>

fun typeof_object :: "json \<Rightarrow> bool" where
  "typeof_object JNull = True"
| "typeof_object (JArr xs) = True"
| "typeof_object (JObj kvs) = True"
| "typeof_object v = False"

fun join_comma :: "string list \<Rightarrow> string" where
  "join_comma [] = []"
| "join_comma [s] = s"
| "join_comma (s # t # ss) = s @ '','' @ join_comma (t # ss)"

text \<open>
  Turning a value into text, as string concatenation, a template literal and
  \<^verbatim>\<open>Array.prototype.join\<close> do. An object made by \<^verbatim>\<open>JSON.parse\<close> with a
  member named \<^verbatim>\<open>toString\<close> has no callable method of that name, and the
  conversion throws a \<^verbatim>\<open>TypeError\<close>; so does the conversion of an array with
  such an element. \<open>toString_throws\<close> tells when it throws, and \<open>js_toString\<close> is
  the text when it does not.
\<close>

fun toString_throws :: "json \<Rightarrow> bool" where
  "toString_throws (JObj kvs) = (''toString'' \<in> set (map fst kvs))"
| "toString_throws (JArr xs) = list_ex toString_throws xs"
| "toString_throws v = False"

fun js_toString :: "json \<Rightarrow> string" where
  "js_toString JNull = ''null''"
| "js_toString (JBool b) = (if b then ''true'' else ''false'')"
| "js_toString (JNum n) = n"
| "js_toString (JStr s) = s"
| "js_toString (JArr xs) =
     join_comma (map (\<lambda>x. if x = JNull then [] else js_toString x) xs)"
| "js_toString (JObj kvs) = ''[object Object]''"

text \<open>The same test for a value that may be \<^verbatim>\<open>undefined\<close>.\<close>

definition template_throws :: "json option \<Rightarrow> bool" where
  "template_throws v = (case v of None \<Rightarrow> False | Some x \<Rightarrow> toString_throws x)"

text \<open>
  \<^verbatim>\<open>for (const x of v)\<close>: the elements of an array, the characters of a string;
  any other value is not iterable and the loop throws a \<^verbatim>\<open>TypeError\<close>.
\<close>

datatype js_error = Error string | TypeError | SyntaxError

fun js_iterate :: "json option \<Rightarrow> js_error + json list" where
  "js_iterate (Some (JArr xs)) = Inr xs"
| "js_iterate (Some (JStr s)) = Inr (map (\<lambda>c. JStr [c]) s)"
| "js_iterate v = Inl TypeError"

text \<open>
  \<^verbatim>\<open>findFileInTar\<close> of the variants that match path segments from the end
  (part_000 lines 96 to 122, part_001 lines 211 to 236, part_002 lines 622 to 647): the
  buffer of the entry the loop finds, \<^verbatim>\<open>null\<close> when it finds none, and the
  \<^verbatim>\<open>TypeError\<close> of the call \<^verbatim>\<open>tarReader.hasNext()\<close> when the object has no
  such method.
\<close>

definition findFileInTar :: "tar_reader \<Rightarrow> string \<Rightarrow> js_error + bytes option" where
  "findFileInTar tarReader searchPath =
     (case tarReader of
        None \<Rightarrow> Inl TypeError
      | Some t \<Rightarrow> Inr (map_option buffer (findEntryInTar t (normalizeFilePath searchPath))))"

section \<open>Classifying a link\<close>

text \<open>
  \<^verbatim>\<open>determineOperation\<close> (part_002 lines 547 to 550). Of \<^verbatim>\<open>toLowerCase\<close> the
  model has the lowering of the letters A to Z.
\<close>

definition char_lower :: "char \<Rightarrow> char" where
  "char_lower c =
     (case map_of (zip ''ABCDEFGHIJKLMNOPQRSTUVWXYZ'' ''abcdefghijklmnopqrstuvwxyz'') c of
        Some d \<Rightarrow> d
      | None \<Rightarrow> c)"

definition toLowerCase :: "string \<Rightarrow> string" where
  "toLowerCase s = map char_lower s"

definition js_includes :: "string \<Rightarrow> string \<Rightarrow> bool" where
  "js_includes s pat = sublist pat s"

datatype operation = Insert | Update

definition determineOperation :: "string \<Rightarrow> operation" where
  "determineOperation link =
     (let lowerLink = toLowerCase link in
      if js_includes lowerLink ''update'' \<or> js_includes lowerLink ''modify'' then Update else Insert)"

section \<open>The output archive\<close>

text \<open>
  The code builds the output with calls
  \<^verbatim>\<open>processedZip.folder(folderName)?.file(fileName, content)\<close>. The archive under
  construction is the sequence of these calls, each with its three arguments; the blob
  \<^verbatim>\<open>generateAsync\<close> returns is determined by it.
\<close>

type_synonym zip_write = "json option \<times> string \<times> bytes"

text \<open>
  What JSZip stores for a sequence of calls. \<^verbatim>\<open>folder(arg)\<close> returns the archive
  itself for a false argument, and otherwise the folder named by the text of the
  argument, with a slash at its end; \<^verbatim>\<open>file(name, data)\<close> stores the data under
  the folder's path followed by the name, replacing what was stored there. A call whose
  argument cannot be turned into text throws and stores nothing; it is not in the
  sequence.
\<close>

definition forceTrailingSlash :: "string \<Rightarrow> string" where
  "forceTrailingSlash n = (if n \<noteq> [] \<and> last n = slash then n else n @ ''/'')"

definition folder_root :: "json option \<Rightarrow> string" where
  "folder_root arg =
     (case arg of
        None \<Rightarrow> []
      | Some v \<Rightarrow> if truthy v then forceTrailingSlash (js_toString v) else [])"

definition write_path :: "zip_write \<Rightarrow> string" where
  "write_path w = (case w of (folderName, fileName, data) \<Rightarrow> folder_root folderName @ fileName)"

definition store_write :: "zip_write \<Rightarrow> (string \<rightharpoonup> bytes) \<Rightarrow> (string \<rightharpoonup> bytes)" where
  "store_write w m = (case w of (folderName, fileName, data) \<Rightarrow> m(write_path w \<mapsto> data))"

definition archive_files :: "zip_write list \<Rightarrow> (string \<rightharpoonup> bytes)" where
  "archive_files ws = fold store_write ws Map.empty"

text \<open>Whether \<^verbatim>\<open>processedZip.folder(arg)\<close> throws.\<close>

definition folder_throws :: "json option \<Rightarrow> bool" where
  "folder_throws arg = (case arg of None \<Rightarrow> False | Some v \<Rightarrow> truthy v \<and> toString_throws v)"

section \<open>The processing run with insert and update counts\<close>

text \<open>
  \<^verbatim>\<open>processFiles\<close> of part_002, lines 649 to 727, with the state it reads and
  writes. The lines of the processing log are kept without the time of day that
  \<^verbatim>\<open>addDebugLog\<close> puts in front of each; a line is its template and the values
  put into it.
\<close>

datatype ProcessingStatus = StatusIdle | StatusProcessing | StatusSuccess | StatusError

record FolderStats =
  name :: "json option"
  fileCount :: nat
  insertCount :: nat
  updateCount :: nat
  files :: "(string \<times> operation) list"

datatype log_entry =
    StartingFileProcessing
  | JsonConfigurationLoaded
  | ProcessingTarFile
  | ProcessingZipFile
  | ProcessingFolder "json option"
  | ProcessingFile json
  | SuccessfullyProcessedFile string operation
  | SuccessfullyProcessedPlainFile string
  | WarningFileNotFound string
  | FileProcessingCompleted
  | ErrorDuringProcessing js_error
  | JsonConfigLoaded
  | TarFileLoaded
  | ErrorLine js_error

text \<open>
  The lines, in the order of the constructors:
  \<^verbatim>\<open>Starting file processing\<close>,
  \<^verbatim>\<open>JSON configuration loaded successfully\<close>,
  \<^verbatim>\<open>Processing TAR file\<close>,
  \<^verbatim>\<open>Processing ZIP file\<close>,
  \<^verbatim>\<open>Processing folder: ${folderName}\<close>,
  \<^verbatim>\<open>Processing file: ${link}\<close>,
  \<^verbatim>\<open>Successfully processed file: ${fileName} (${operation})\<close>,
  \<^verbatim>\<open>Successfully processed file: ${fileName}\<close>,
  \<^verbatim>\<open>Warning: File not found: ${link}\<close>,
  \<^verbatim>\<open>File processing completed successfully\<close>,
  \<^verbatim>\<open>Error during processing: ${errorMessage}\<close>,
  and, in part_000, \<^verbatim>\<open>JSON config loaded successfully\<close>,
  \<^verbatim>\<open>TAR file loaded successfully\<close> and \<^verbatim>\<open>Error: ${errorMessage}\<close>.
  The message of an error made with \<^verbatim>\<open>new Error(text)\<close> is that text; the
  message of a \<^verbatim>\<open>TypeError\<close> or \<^verbatim>\<open>SyntaxError\<close> thrown by the engine is the
  engine's, and the error itself stands for it.
\<close>

text \<open>
  The files the component holds. A JSON file is the result of reading and parsing it;
  an archive file has a name and a media type, and is what \<^verbatim>\<open>JSZip.loadAsync\<close>
  makes of it (an error message or an archive) and the reader that
  \<^verbatim>\<open>new Tar(...)\<close> makes of its bytes.
\<close>

datatype json_file = Parsed json | Unparsable

record archive_file =
  archiveName :: string
  archiveType :: string
  loadAsync :: "string + jszip"
  tarObject :: tar_reader

text \<open>
  The state of the component and of its parent; the type of a group's statistics differs
  between the variants. \<open>reads\<close> is not a field of the component: it records, in
  order, which file the run has read.
\<close>

datatype file_read = ReadJsonFile | ReadArchiveFile

record 'stats component_state =
  status :: ProcessingStatus
  errorMessage :: "js_error option"
  processedZip :: "zip_write list option"
  debug :: "log_entry list"
  folderStats :: "'stats list"
  reads :: "file_read list"

text \<open>
  The body of the loop over the links of one group. Its state is the statistics of the
  group, the output archive and the log. The line \<^verbatim>\<open>Processing file: ${link}\<close>
  turns the link into text, which may throw. A link that is not a string has no
  \<^verbatim>\<open>replace\<close> method, and \<^verbatim>\<open>normalizeFilePath\<close> throws.
\<close>

type_synonym link_state = "FolderStats \<times> zip_write list \<times> log_entry list"

definition baseName :: "string \<Rightarrow> string" where
  "baseName link = (let p = last (split_slash link) in if p = [] then link else p)"

definition processLink ::
  "jszip \<Rightarrow> json option \<Rightarrow> json \<Rightarrow> link_state \<Rightarrow> js_error option \<times> link_state" where
  "processLink sourceZip folderName link s =
     (case s of (folderStat, out, dbg) \<Rightarrow>
        if toString_throws link then (Some TypeError, s)
        else
        let dbg1 = dbg @ [ProcessingFile link] in
        (case link of
           JStr l \<Rightarrow>
             (case findFileInZip sourceZip l of
                Some file \<Rightarrow>
                  let fileName = baseName l;
                      operation = determineOperation l;
                      counted = folderStat\<lparr>fileCount := fileCount folderStat + 1\<rparr>;
                      classed = (if operation = Insert
                                 then counted\<lparr>insertCount := insertCount counted + 1\<rparr>
                                 else counted\<lparr>updateCount := updateCount counted + 1\<rparr>);
                      listed = classed\<lparr>files := files classed @ [(fileName, operation)]\<rparr>
                  in (None, (listed,
                             out @ [(folderName, fileName, content file)],
                             dbg1 @ [SuccessfullyProcessedFile fileName operation]))
              | None \<Rightarrow> (None, (folderStat, out, dbg1 @ [WarningFileNotFound l])))
         | _ \<Rightarrow> (Some TypeError, (folderStat, out, dbg1))))"

fun processLinks ::
  "jszip \<Rightarrow> json option \<Rightarrow> json list \<Rightarrow> link_state \<Rightarrow> js_error option \<times> link_state" where
  "processLinks sourceZip folderName [] s = (None, s)"
| "processLinks sourceZip folderName (link # links) s =
     (case processLink sourceZip folderName link s of
        (Some e, s') \<Rightarrow> (Some e, s')
      | (None, s') \<Rightarrow> processLinks sourceZip folderName links s')"

text \<open>\<^verbatim>\<open>folderConfig.Links || []\<close>, as the loop iterates it.\<close>

definition linksOf :: "json \<Rightarrow> js_error + json list" where
  "linksOf folderConfig =
     (case js_get folderConfig ''Links'' of
        None \<Rightarrow> Inr []
      | Some v \<Rightarrow> if truthy v then js_iterate (Some v) else Inr [])"

text \<open>
  The body of the loop over the groups of the configuration. The line
  \<^verbatim>\<open>Processing folder: ${folderName}\<close> turns the name into text, which may throw;
  after it the call \<^verbatim>\<open>processedZip.folder(folderName)\<close> does not throw.
\<close>

type_synonym folder_state = "FolderStats list \<times> zip_write list \<times> log_entry list"

definition processFolderConfig ::
  "jszip \<Rightarrow> json \<Rightarrow> folder_state \<Rightarrow> js_error option \<times> folder_state" where
  "processFolderConfig sourceZip folderConfig s =
     (case s of (newFolderStats, out, dbg) \<Rightarrow>
        if \<not> truthy folderConfig \<or> \<not> typeof_object folderConfig then (None, s)
        else if template_throws (js_get folderConfig ''Review Text'') then (Some TypeError, s)
        else
          let folderName = js_get folderConfig ''Review Text'';
              dbg1 = dbg @ [ProcessingFolder folderName];
              folderStat = \<lparr>name = folderName, fileCount = 0, insertCount = 0,
                             updateCount = 0, files = []\<rparr>
          in (case linksOf folderConfig of
                Inl e \<Rightarrow> (Some e, (newFolderStats, out, dbg1))
              | Inr links \<Rightarrow>
                  (case processLinks sourceZip folderName links (folderStat, out, dbg1) of
                     (Some e, (stat, out', dbg')) \<Rightarrow> (Some e, (newFolderStats, out', dbg'))
                   | (None, (stat, out', dbg')) \<Rightarrow>
                       (None, (newFolderStats @ [stat], out', dbg')))))"

fun processFolderConfigs ::
  "jszip \<Rightarrow> json list \<Rightarrow> folder_state \<Rightarrow> js_error option \<times> folder_state" where
  "processFolderConfigs sourceZip [] s = (None, s)"
| "processFolderConfigs sourceZip (folderConfig # rest) s =
     (case processFolderConfig sourceZip folderConfig s of
        (Some e, s') \<Rightarrow> (Some e, s')
      | (None, s') \<Rightarrow> processFolderConfigs sourceZip rest s')"

text \<open>
  The \<^verbatim>\<open>try\<close> block: the thrown error, if any, and the state reached. What the
  block keeps in local variables is lost when it throws; the log is not.
\<close>

definition tryBlock ::
  "archive_file \<Rightarrow> json_file \<Rightarrow> FolderStats component_state
     \<Rightarrow> js_error option \<times> FolderStats component_state" where
  "tryBlock archive json st =
     (let st1 = st\<lparr>status := StatusProcessing,
                   debug := debug st @ [StartingFileProcessing]\<rparr>;
          st2 = st1\<lparr>reads := reads st1 @ [ReadJsonFile]\<rparr>
      in case json of
           Unparsable \<Rightarrow> (Some SyntaxError, st2)
         | Parsed config \<Rightarrow>
             let st3 = st2\<lparr>debug := debug st2 @ [JsonConfigurationLoaded]\<rparr> in
             if \<not> isArray config
             then (Some (Error ''Invalid JSON format: expected an array''), st3)
             else
               let st4 = st3\<lparr>reads := reads st3 @ [ReadArchiveFile]\<rparr> in
               (case loadAsync archive of
                  Inl msg \<Rightarrow> (Some (Error msg), st4)
                | Inr sourceZip \<Rightarrow>
                    (case js_iterate (Some config) of
                       Inl e \<Rightarrow> (Some e, st4)
                     | Inr folderConfigs \<Rightarrow>
                    (case processFolderConfigs sourceZip folderConfigs ([], [], debug st4) of
                       (Some e, (stats, out, dbg)) \<Rightarrow> (Some e, st4\<lparr>debug := dbg\<rparr>)
                     | (None, (stats, out, dbg)) \<Rightarrow>
                         (None, st4\<lparr>folderStats := stats,
                                     processedZip := Some out,
                                     status := StatusSuccess,
                                     debug := dbg @ [FileProcessingCompleted]\<rparr>)))))"

definition processFiles ::
  "FolderStats component_state \<Rightarrow> archive_file option \<Rightarrow> json_file option
     \<Rightarrow> FolderStats component_state" where
  "processFiles st archiveFile jsonFile =
     (case (archiveFile, jsonFile) of
        (Some archive, Some json) \<Rightarrow>
          (case tryBlock archive json st of
             (None, st') \<Rightarrow> st'
           | (Some e, st') \<Rightarrow>
               st'\<lparr>errorMessage := Some e, status := StatusError,
                   debug := debug st' @ [ErrorDuringProcessing e]\<rparr>)
      | _ \<Rightarrow> st\<lparr>errorMessage := Some (Error ''Please upload both archive and JSON files'')\<rparr>)"

text \<open>The invariant of a group's statistics.\<close>

definition stats_ok :: "FolderStats \<Rightarrow> bool" where
  "stats_ok s \<longleftrightarrow>
     insertCount s + updateCount s = fileCount s \<and> fileCount s = length (files s)"

section \<open>The processing run of part_001\<close>

text \<open>
  \<^verbatim>\<open>processFiles\<close> of part_001 (lines 238 to 338) counts the files of a group and
  lists their names, without an operation. It has one loop for a TAR archive (lines 263
  to 290) and one for a ZIP archive (lines 295 to 323);
  the two differ only in how a link is resolved to bytes, which is a parameter here:
  \<^verbatim>\<open>findFileInTar(tarBuffer, link)\<close> in the first, which may throw, and
  \<^verbatim>\<open>findFileInZip(sourceZip, link)\<close> followed by \<^verbatim>\<open>file.async('uint8array')\<close>
  in the second.
\<close>

record PlainFolderStats =
  statName :: "json option"
  statFileCount :: nat
  statFiles :: "string list"

definition isTarFile :: "archive_file \<Rightarrow> bool" where
  "isTarFile f \<longleftrightarrow>
     suffix ''.tar'' (toLowerCase (archiveName f)) \<or> archiveType f = ''application/x-tar''"

definition zipContent :: "jszip \<Rightarrow> string \<Rightarrow> js_error + bytes option" where
  "zipContent sourceZip link = Inr (map_option content (findFileInZip sourceZip link))"

type_synonym plain_link_state = "PlainFolderStats \<times> zip_write list \<times> log_entry list"

definition processLink_part_001 ::
  "(string \<Rightarrow> js_error + bytes option) \<Rightarrow> json option \<Rightarrow> json \<Rightarrow> plain_link_state
     \<Rightarrow> js_error option \<times> plain_link_state" where
  "processLink_part_001 resolve folderName link s =
     (case s of (folderStat, out, dbg) \<Rightarrow>
        if toString_throws link then (Some TypeError, s)
        else
        let dbg1 = dbg @ [ProcessingFile link] in
        (case link of
           JStr l \<Rightarrow>
             (case resolve l of
                Inl e \<Rightarrow> (Some e, (folderStat, out, dbg1))
              | Inr (Some fileContent) \<Rightarrow>
                  let counted = folderStat\<lparr>statFileCount := statFileCount folderStat + 1\<rparr>;
                      fileName = baseName l;
                      listed = counted\<lparr>statFiles := statFiles counted @ [fileName]\<rparr>
                  in (None, (listed,
                             out @ [(folderName, fileName, fileContent)],
                             dbg1 @ [SuccessfullyProcessedPlainFile fileName]))
              | Inr None \<Rightarrow> (None, (folderStat, out, dbg1 @ [WarningFileNotFound l])))
         | _ \<Rightarrow> (Some TypeError, (folderStat, out, dbg1))))"

fun processLinks_part_001 ::
  "(string \<Rightarrow> js_error + bytes option) \<Rightarrow> json option \<Rightarrow> json list \<Rightarrow> plain_link_state
     \<Rightarrow> js_error option \<times> plain_link_state" where
  "processLinks_part_001 resolve folderName [] s = (None, s)"
| "processLinks_part_001 resolve folderName (link # links) s =
     (case processLink_part_001 resolve folderName link s of
        (Some e, s') \<Rightarrow> (Some e, s')
      | (None, s') \<Rightarrow> processLinks_part_001 resolve folderName links s')"

type_synonym plain_folder_state = "PlainFolderStats list \<times> zip_write list \<times> log_entry list"

definition processFolderConfig_part_001 ::
  "(string \<Rightarrow> js_error + bytes option) \<Rightarrow> json \<Rightarrow> plain_folder_state
     \<Rightarrow> js_error option \<times> plain_folder_state" where
  "processFolderConfig_part_001 resolve folderConfig s =
     (case s of (newFolderStats, out, dbg) \<Rightarrow>
        if \<not> truthy folderConfig \<or> \<not> typeof_object folderConfig then (None, s)
        else if template_throws (js_get folderConfig ''Review Text'') then (Some TypeError, s)
        else
          let folderName = js_get folderConfig ''Review Text'';
              dbg1 = dbg @ [ProcessingFolder folderName];
              folderStat = \<lparr>statName = folderName, statFileCount = 0, statFiles = []\<rparr>
          in (case linksOf folderConfig of
                Inl e \<Rightarrow> (Some e, (newFolderStats, out, dbg1))
              | Inr links \<Rightarrow>
                  (case processLinks_part_001 resolve folderName links (folderStat, out, dbg1) of
                     (Some e, (stat, out', dbg')) \<Rightarrow> (Some e, (newFolderStats, out', dbg'))
                   | (None, (stat, out', dbg')) \<Rightarrow>
                       (None, (newFolderStats @ [stat], out', dbg')))))"

fun processFolderConfigs_part_001 ::
  "(string \<Rightarrow> js_error + bytes option) \<Rightarrow> json list \<Rightarrow> plain_folder_state
     \<Rightarrow> js_error option \<times> plain_folder_state" where
  "processFolderConfigs_part_001 resolve [] s = (None, s)"
| "processFolderConfigs_part_001 resolve (folderConfig # rest) s =
     (case processFolderConfig_part_001 resolve folderConfig s of
        (Some e, s') \<Rightarrow> (Some e, s')
      | (None, s') \<Rightarrow> processFolderConfigs_part_001 resolve rest s')"

text \<open>The end of the \<^verbatim>\<open>try\<close> block, after either loop.\<close>

definition finish_part_001 ::
  "PlainFolderStats component_state \<Rightarrow> js_error option \<times> plain_folder_state
     \<Rightarrow> js_error option \<times> PlainFolderStats component_state" where
  "finish_part_001 st r =
     (case r of
        (Some e, (stats, out, dbg)) \<Rightarrow> (Some e, st\<lparr>debug := dbg\<rparr>)
      | (None, (stats, out, dbg)) \<Rightarrow>
          (None, st\<lparr>folderStats := stats,
                    processedZip := Some out,
                    status := StatusSuccess,
                    debug := dbg @ [FileProcessingCompleted]\<rparr>))"

definition tryBlock_part_001 ::
  "archive_file \<Rightarrow> json_file \<Rightarrow> PlainFolderStats component_state
     \<Rightarrow> js_error option \<times> PlainFolderStats component_state" where
  "tryBlock_part_001 archive json st =
     (let st1 = st\<lparr>status := StatusProcessing,
                   debug := debug st @ [StartingFileProcessing]\<rparr>;
          st2 = st1\<lparr>reads := reads st1 @ [ReadJsonFile]\<rparr>
      in case json of
           Unparsable \<Rightarrow> (Some SyntaxError, st2)
         | Parsed config \<Rightarrow>
             let st3 = st2\<lparr>debug := debug st2 @ [JsonConfigurationLoaded]\<rparr> in
             if \<not> isArray config
             then (Some (Error ''Invalid JSON format: expected an array''), st3)
             else
               (case js_iterate (Some config) of
                  Inl e \<Rightarrow> (Some e, st3)
                | Inr folderConfigs \<Rightarrow>
                    if isTarFile archive then
                      let st4 = st3\<lparr>debug := debug st3 @ [ProcessingTarFile],
                                    reads := reads st3 @ [ReadArchiveFile]\<rparr>
                      in finish_part_001 st4
                           (processFolderConfigs_part_001 (findFileInTar (tarObject archive))
                              folderConfigs ([], [], debug st4))
                    else
                      let st4 = st3\<lparr>debug := debug st3 @ [ProcessingZipFile],
                                    reads := reads st3 @ [ReadArchiveFile]\<rparr>
                      in (case loadAsync archive of
                            Inl msg \<Rightarrow> (Some (Error msg), st4)
                          | Inr sourceZip \<Rightarrow>
                              finish_part_001 st4
                                (processFolderConfigs_part_001 (zipContent sourceZip)
                                   folderConfigs ([], [], debug st4)))))"

definition processFiles_part_001 ::
  "PlainFolderStats component_state \<Rightarrow> archive_file option \<Rightarrow> json_file option
     \<Rightarrow> PlainFolderStats component_state" where
  "processFiles_part_001 st archiveFile jsonFile =
     (case (archiveFile, jsonFile) of
        (Some archive, Some json) \<Rightarrow>
          (case tryBlock_part_001 archive json st of
             (None, st') \<Rightarrow> st'
           | (Some e, st') \<Rightarrow>
               st'\<lparr>errorMessage := Some e, status := StatusError,
                   debug := debug st' @ [ErrorDuringProcessing e]\<rparr>)
      | _ \<Rightarrow> st\<lparr>errorMessage := Some (Error ''Please upload both archive and JSON files'')\<rparr>)"

section \<open>The processing run of part_000\<close>

text \<open>
  \<^verbatim>\<open>processFiles\<close> of the first variant in part_000 (lines 124 to 213). It keeps the
  same statistics as part_001, reads the name of a group under the key
  \<^verbatim>\<open>Review Test\<close>, empties the log when it starts and writes three kinds of lines
  to it. Its loop for a TAR archive (lines 152 to 173) and its loop for a ZIP archive
  (lines 177 to 199) again differ only in the resolver. No line of the log names a group
  or a link, so the first conversion of a group's name into text is the one in
  \<^verbatim>\<open>processedZip.folder(folderName)\<close>.
\<close>

definition processLink_part_000 ::
  "(string \<Rightarrow> js_error + bytes option) \<Rightarrow> json option \<Rightarrow> json
     \<Rightarrow> PlainFolderStats \<times> zip_write list \<Rightarrow> js_error + PlainFolderStats \<times> zip_write list" where
  "processLink_part_000 resolve folderName link s =
     (case s of (folderStat, out) \<Rightarrow>
        (case link of
           JStr l \<Rightarrow>
             (case resolve l of
                Inl e \<Rightarrow> Inl e
              | Inr (Some fileContent) \<Rightarrow>
                  let counted = folderStat\<lparr>statFileCount := statFileCount folderStat + 1\<rparr>;
                      fileName = baseName l;
                      listed = counted\<lparr>statFiles := statFiles counted @ [fileName]\<rparr>
                  in if folder_throws folderName then Inl TypeError
                     else Inr (listed, out @ [(folderName, fileName, fileContent)])
              | Inr None \<Rightarrow> Inr (folderStat, out))
         | _ \<Rightarrow> Inl TypeError))"

fun processLinks_part_000 ::
  "(string \<Rightarrow> js_error + bytes option) \<Rightarrow> json option \<Rightarrow> json list
     \<Rightarrow> PlainFolderStats \<times> zip_write list \<Rightarrow> js_error + PlainFolderStats \<times> zip_write list" where
  "processLinks_part_000 resolve folderName [] s = Inr s"
| "processLinks_part_000 resolve folderName (link # links) s =
     (case processLink_part_000 resolve folderName link s of
        Inl e \<Rightarrow> Inl e
      | Inr s' \<Rightarrow> processLinks_part_000 resolve folderName links s')"

definition processFolderConfig_part_000 ::
  "(string \<Rightarrow> js_error + bytes option) \<Rightarrow> json \<Rightarrow> PlainFolderStats list \<times> zip_write list
     \<Rightarrow> js_error + PlainFolderStats list \<times> zip_write list" where
  "processFolderConfig_part_000 resolve folderConfig s =
     (case s of (newFolderStats, out) \<Rightarrow>
        if \<not> truthy folderConfig \<or> \<not> typeof_object folderConfig then Inr s
        else
          let folderName = js_get folderConfig ''Review Test'';
              folderStat = \<lparr>statName = folderName, statFileCount = 0, statFiles = []\<rparr>
          in (case linksOf folderConfig of
                Inl e \<Rightarrow> Inl e
              | Inr links \<Rightarrow>
                  (case processLinks_part_000 resolve folderName links (folderStat, out) of
                     Inl e \<Rightarrow> Inl e
                   | Inr (stat, out') \<Rightarrow> Inr (newFolderStats @ [stat], out'))))"

fun processFolderConfigs_part_000 ::
  "(string \<Rightarrow> js_error + bytes option) \<Rightarrow> json list \<Rightarrow> PlainFolderStats list \<times> zip_write list
     \<Rightarrow> js_error + PlainFolderStats list \<times> zip_write list" where
  "processFolderConfigs_part_000 resolve [] s = Inr s"
| "processFolderConfigs_part_000 resolve (folderConfig # rest) s =
     (case processFolderConfig_part_000 resolve folderConfig s of
        Inl e \<Rightarrow> Inl e
      | Inr s' \<Rightarrow> processFolderConfigs_part_000 resolve rest s')"

definition finish_part_000 ::
  "PlainFolderStats component_state \<Rightarrow> js_error + PlainFolderStats list \<times> zip_write list
     \<Rightarrow> js_error option \<times> PlainFolderStats component_state" where
  "finish_part_000 st r =
     (case r of
        Inl e \<Rightarrow> (Some e, st)
      | Inr (stats, out) \<Rightarrow>
          (None, st\<lparr>folderStats := stats,
                    processedZip := Some out,
                    status := StatusSuccess\<rparr>))"

definition tryBlock_part_000 ::
  "archive_file \<Rightarrow> json_file \<Rightarrow> PlainFolderStats component_state
     \<Rightarrow> js_error option \<times> PlainFolderStats component_state" where
  "tryBlock_part_000 archive json st =
     (let st1 = st\<lparr>status := StatusProcessing, debug := []\<rparr>;
          st2 = st1\<lparr>reads := reads st1 @ [ReadJsonFile]\<rparr>
      in case json of
           Unparsable \<Rightarrow> (Some SyntaxError, st2)
         | Parsed config \<Rightarrow>
             if \<not> isArray config
             then (Some (Error ''Invalid JSON format: expected an array''), st2)
             else
               let st3 = st2\<lparr>debug := debug st2 @ [JsonConfigLoaded]\<rparr> in
               (case js_iterate (Some config) of
                  Inl e \<Rightarrow> (Some e, st3)
                | Inr folderConfigs \<Rightarrow>
                    if isTarFile archive then
                      let st4 = st3\<lparr>reads := reads st3 @ [ReadArchiveFile],
                                    debug := debug st3 @ [TarFileLoaded]\<rparr>
                      in finish_part_000 st4
                           (processFolderConfigs_part_000 (findFileInTar (tarObject archive))
                              folderConfigs ([], []))
                    else
                      let st4 = st3\<lparr>reads := reads st3 @ [ReadArchiveFile]\<rparr>
                      in (case loadAsync archive of
                            Inl msg \<Rightarrow> (Some (Error msg), st4)
                          | Inr sourceZip \<Rightarrow>
                              finish_part_000 st4
                                (processFolderConfigs_part_000 (zipContent sourceZip)
                                   folderConfigs ([], [])))))"

definition processFiles_part_000 ::
  "PlainFolderStats component_state \<Rightarrow> archive_file option \<Rightarrow> json_file option
     \<Rightarrow> PlainFolderStats component_state" where
  "processFiles_part_000 st archiveFile jsonFile =
     (case (archiveFile, jsonFile) of
        (Some archive, Some json) \<Rightarrow>
          (case tryBlock_part_000 archive json st of
             (None, st') \<Rightarrow> st'
           | (Some e, st') \<Rightarrow>
               st'\<lparr>errorMessage := Some e, status := StatusError,
                   debug := debug st' @ [ErrorLine e]\<rparr>)
      | _ \<Rightarrow> st\<lparr>errorMessage := Some (Error ''Please upload both archive and JSON files'')\<rparr>)"

section \<open>The processing run of src/components/FileProcessor.tsx\<close>









section \<open>The processing run of the ZIP-only variant of part_000\<close>






section \<open>The processing run of the first variant of part_002\<close>

text \<open>
  \<^verbatim>\<open>processFiles\<close> of the first variant in part_002 (lines 106 to 254). It tests
  that the configuration is an array, and has a loop for a TAR archive (lines 134 to 182)
  and a loop for a ZIP archive (lines 190 to 239). Both skip a group that is not an
  object, a group whose name is not a non-empty string and a group without links, name
  the output folder by \<^verbatim>\<open>reviewTest.replace(/[^a-zA-Z0-9-_]/g, '_')\<close> (lines 146
  and 202), and skip a link that is not a non-empty string. They differ in how the
  normalized link is resolved to bytes, which is a parameter here. As for the variant
  before, the model follows the output archive and the errors thrown.
\<close>









section \<open>An example run\<close>

text \<open>
  The scenario of the specification: one group with a link that names an update, a link
  that is found under an extra leading directory, and a link that is not in the archive.
\<close>

definition example_state :: "'stats component_state" where
  "example_state =
     \<lparr>status = StatusIdle, errorMessage = None, processedZip = None, debug = [],
      folderStats = [], reads = []\<rparr>"

definition example_zip :: jszip where
  "example_zip =
     [\<lparr>zname = ''folder/'', dir = True, content = []\<rparr>,
      \<lparr>zname = ''folder/update_file.txt'', dir = False, content = [1, 2]\<rparr>,
      \<lparr>zname = ''x/other/file2.txt'', dir = False, content = [3]\<rparr>]"

definition example_archive :: archive_file where
  "example_archive =
     \<lparr>archiveName = ''in.zip'', archiveType = ''application/zip'',
      loadAsync = Inr example_zip, tarObject = None\<rparr>"

definition example_config :: json where
  "example_config =
     JArr [JObj [(''Review Text'', JStr ''GroupA''),
                 (''Links'', JArr [JStr ''folder/update_file.txt'', JStr ''other/file2.txt'',
                                   JStr ''missing.txt''])]]"

text \<open>
  An archive in which two entries end with the same two segments, one in which only one
  does, one with two files of the same name in different directories, and groups with
  the link \<^verbatim>\<open>b/c.txt\<close>.
\<close>

definition ambiguous_archive :: archive_file where
  "ambiguous_archive =
     \<lparr>archiveName = ''in.zip'', archiveType = ''application/zip'',
      loadAsync = Inr [\<lparr>zname = ''x/b/c.txt'', dir = False, content = [1]\<rparr>,
                       \<lparr>zname = ''a/b/c.txt'', dir = False, content = [2]\<rparr>],
      tarObject = None\<rparr>"

definition plain_archive :: archive_file where
  "plain_archive =
     \<lparr>archiveName = ''in.zip'', archiveType = ''application/zip'',
      loadAsync = Inr [\<lparr>zname = ''a/'', dir = True, content = []\<rparr>,
                       \<lparr>zname = ''a/b/c.txt'', dir = False, content = [5, 6]\<rparr>,
                       \<lparr>zname = ''d.txt'', dir = False, content = [7]\<rparr>],
      tarObject = None\<rparr>"

definition two_file_archive :: archive_file where
  "two_file_archive =
     \<lparr>archiveName = ''in.zip'', archiveType = ''application/zip'',
      loadAsync = Inr [\<lparr>zname = ''a/b/c.txt'', dir = False, content = [2]\<rparr>,
                       \<lparr>zname = ''q/c.txt'', dir = False, content = [4]\<rparr>],
      tarObject = None\<rparr>"

definition group_two_links :: json where
  "group_two_links =
     JObj [(''Review Text'', JStr ''G''), (''Links'', JArr [JStr ''b/c.txt'', JStr ''q/c.txt''])]"

definition group_G :: json where
  "group_G = JObj [(''Review Text'', JStr ''G''), (''Links'', JArr [JStr ''b/c.txt''])]"

text \<open>
  A ZIP archive with one file at its root; a file named \<^verbatim>\<open>in.tar\<close>, which is not
  a ZIP archive and of which \<^verbatim>\<open>new Tar(...)\<close> of tar-js makes an object without
  reader methods; and groups named under the key \<^verbatim>\<open>Review Test\<close> or
  \<^verbatim>\<open>Review Text\<close>.
\<close>

definition flat_archive :: archive_file where
  "flat_archive =
     \<lparr>archiveName = ''in.zip'', archiveType = ''application/zip'',
      loadAsync = Inr [\<lparr>zname = ''d.txt'', dir = False, content = [7]\<rparr>],
      tarObject = None\<rparr>"


definition tar_archive :: archive_file where
  "tar_archive =
     \<lparr>archiveName = ''in.tar'', archiveType = ''application/x-tar'',
      loadAsync = Inl ''not a zip file'',
      tarObject = None\<rparr>"


definition group_missing_link :: json where
  "group_missing_link =
     JObj [(''Review Text'', JStr ''G''), (''Links'', JArr [JStr ''missing.txt''])]"


section \<open>Properties of the path helper\<close>

lemma replace_backslashes_no_backslash: "backslash \<notin> set (replace_backslashes p)"
  by (auto simp: replace_backslashes_def)

lemma replace_backslashes_id: "backslash \<notin> set p \<Longrightarrow> replace_backslashes p = p"
  by (induction p) (auto simp: replace_backslashes_def)

lemma set_collapse_slashes: "set (collapse_slashes p) \<subseteq> set p"
  by (induction p rule: collapse_slashes.induct) auto

lemma collapse_slashes_Nil_iff: "collapse_slashes p = [] \<longleftrightarrow> p = []"
  by (induction p rule: collapse_slashes.induct) auto

lemma hd_collapse_slashes: "hd (collapse_slashes p) = hd p"
  by (induction p rule: collapse_slashes.induct) auto

lemma strip_leading_slashes_no_lead:
  "strip_leading_slashes p = [] \<or> hd (strip_leading_slashes p) \<noteq> slash"
  unfolding strip_leading_slashes_def
  by (metis (mono_tags, lifting) hd_dropWhile)

lemma strip_leading_slashes_id: "p = [] \<or> hd p \<noteq> slash \<Longrightarrow> strip_leading_slashes p = p"
  by (cases p) (auto simp: strip_leading_slashes_def)

lemma set_strip_leading_slashes: "set (strip_leading_slashes p) \<subseteq> set p"
  unfolding strip_leading_slashes_def by (simp add: set_dropWhileD subsetI)

lemma no_double_slash_collapse: "no_double_slash (collapse_slashes p)"
proof (induction p rule: collapse_slashes.induct)
  case (3 c d cs)
  have ne: "collapse_slashes (d # cs) \<noteq> []"
    by (simp add: collapse_slashes_Nil_iff)
  then obtain e es where e: "collapse_slashes (d # cs) = e # es"
    by (cases "collapse_slashes (d # cs)") auto
  have "e = d"
    using hd_collapse_slashes [of "d # cs"] e by simp
  with 3 e show ?case by auto
qed simp_all

lemma collapse_slashes_id: "no_double_slash p \<Longrightarrow> collapse_slashes p = p"
  by (induction p rule: collapse_slashes.induct) auto

lemma no_double_slash_sublist: "no_double_slash p \<Longrightarrow> \<not> sublist ''//'' p"
proof (induction p rule: no_double_slash.induct)
  case (3 c d cs)
  then show ?case
    by (auto simp: sublist_Cons_right)
qed (auto simp: sublist_Cons_right)

lemma normalizeFilePath_no_backslash: "backslash \<notin> set (normalizeFilePath p)"
  unfolding normalizeFilePath_def
  using set_collapse_slashes set_strip_leading_slashes replace_backslashes_no_backslash
  by blast

lemma normalizeFilePath_no_lead:
  "normalizeFilePath p = [] \<or> hd (normalizeFilePath p) \<noteq> slash"
  unfolding normalizeFilePath_def
  using strip_leading_slashes_no_lead [of "replace_backslashes p"]
  by (auto simp: hd_collapse_slashes)

lemma normalizeFilePath_no_double: "no_double_slash (normalizeFilePath p)"
  unfolding normalizeFilePath_def by (rule no_double_slash_collapse)

lemma normalizeFilePath_fixed:
  assumes "backslash \<notin> set q" and "q = [] \<or> hd q \<noteq> slash" and "no_double_slash q"
  shows "normalizeFilePath q = q"
  using assms
  by (simp add: normalizeFilePath_def replace_backslashes_id strip_leading_slashes_id
      collapse_slashes_id)

lemma normalizeFilePath_idem: "normalizeFilePath (normalizeFilePath p) = normalizeFilePath p"
  by (rule normalizeFilePath_fixed
      [OF normalizeFilePath_no_backslash normalizeFilePath_no_lead normalizeFilePath_no_double])

lemmas path_eval = normalizeFilePath_def replace_backslashes_def strip_leading_slashes_def

text \<open>
  C2. \<^verbatim>\<open>normalizeFilePath\<close> is a total function that is idempotent, and its
  result contains no backslash, does not begin with a slash, and contains no two
  consecutive slashes.
\<close>

theorem normalizeFilePath_idempotent_clean:
  "normalizeFilePath (normalizeFilePath p) = normalizeFilePath p
   \<and> backslash \<notin> set (normalizeFilePath p)
   \<and> \<not> prefix ''/'' (normalizeFilePath p)
   \<and> \<not> sublist ''//'' (normalizeFilePath p)"
proof -
  have "\<not> prefix ''/'' (normalizeFilePath p)"
    using normalizeFilePath_no_lead [of p] by (auto simp: prefix_def)
  then show ?thesis
    using normalizeFilePath_idem normalizeFilePath_no_backslash
      no_double_slash_sublist [OF normalizeFilePath_no_double]
    by blast
qed

section \<open>Properties of the entry resolvers\<close>

lemma matchFromEnd_iff:
  "matchFromEnd parts sp i \<longleftrightarrow>
     (\<forall>j. i \<le> j \<and> j \<le> length sp \<longrightarrow>
        js_index parts (int (length parts) - int j) = js_index sp (int (length sp) - int j))"
proof (induction parts sp i rule: matchFromEnd.induct)
  case (1 parts sp i)
  show ?case
  proof (cases "i \<le> length sp")
    case False
    then show ?thesis by (subst matchFromEnd.simps) auto
  next
    case True
    show ?thesis
    proof (cases "js_index parts (int (length parts) - int i) = js_index sp (int (length sp) - int i)")
      case False
      with True show ?thesis by (subst matchFromEnd.simps) auto
    next
      case eq: True
      have "matchFromEnd parts sp i = matchFromEnd parts sp (Suc i)"
        using True eq by (subst matchFromEnd.simps) simp
      also have "\<dots> \<longleftrightarrow> (\<forall>j. Suc i \<le> j \<and> j \<le> length sp \<longrightarrow>
        js_index parts (int (length parts) - int j) = js_index sp (int (length sp) - int j))"
        using 1 True eq by simp
      also have "\<dots> \<longleftrightarrow> (\<forall>j. i \<le> j \<and> j \<le> length sp \<longrightarrow>
        js_index parts (int (length parts) - int j) = js_index sp (int (length sp) - int j))"
        using eq by (metis Suc_leI le_neq_implies_less Suc_leD)
      finally show ?thesis .
    qed
  qed
qed

lemma matchFromEnd_suffix: "matchFromEnd parts sp (Suc 0) \<longleftrightarrow> suffix sp parts"
proof
  assume m: "matchFromEnd parts sp (Suc 0)"
  then have all: "\<And>j. 1 \<le> j \<Longrightarrow> j \<le> length sp \<Longrightarrow>
        js_index parts (int (length parts) - int j) = js_index sp (int (length sp) - int j)"
    by (simp add: matchFromEnd_iff)
  have len: "length sp \<le> length parts"
  proof (cases "sp = []")
    case False
    then have "1 \<le> length sp" by (cases sp) auto
    from all [OF this le_refl] show ?thesis
      using False by (auto simp: js_index_def split: if_splits)
  qed simp
  have "drop (length parts - length sp) parts = sp"
  proof (rule nth_equalityI)
    show "length (drop (length parts - length sp) parts) = length sp" using len by simp
  next
    fix k assume "k < length (drop (length parts - length sp) parts)"
    then have k: "k < length sp" using len by simp
    have "js_index parts (int (length parts) - int (length sp - k)) = js_index sp (int (length sp) - int (length sp - k))"
      using all [of "length sp - k"] k by auto
    then show "drop (length parts - length sp) parts ! k = sp ! k"
      using k len by (auto simp: js_index_def nat_diff_distrib' of_nat_diff split: if_splits)
  qed
  then show "suffix sp parts" by (metis suffix_drop)
next
  assume "suffix sp parts"
  then obtain pre where p: "parts = pre @ sp" by (auto simp: suffix_def)
  show "matchFromEnd parts sp (Suc 0)"
    unfolding matchFromEnd_iff
  proof (intro allI impI)
    fix j assume "Suc 0 \<le> j \<and> j \<le> length sp"
    then show "js_index parts (int (length parts) - int j) = js_index sp (int (length sp) - int j)"
      using p by (auto simp: js_index_def nth_append nat_diff_distrib' of_nat_diff nat_add_distrib)
  qed
qed

lemma zip_file_SomeD:
  "zip_file z n = Some f \<Longrightarrow> zname f = n \<and> \<not> dir f \<and> f \<in> set z"
  by (auto simp: zip_file_def find_Some_iff split: option.splits if_splits)

lemma find_in_set: "find P xs = Some x \<Longrightarrow> x \<in> set xs \<and> P x"
  by (auto simp: find_Some_iff)

lemma tailMatches_suffix:
  "tailMatches n f \<longleftrightarrow> suffix (split_slash n) (split_slash f)"
  by (simp add: tailMatches_def matchFromEnd_suffix)

lemma findFileInZip_tail:
  assumes "findFileInZip z searchPath = Some file"
  shows "suffix (split_slash (normalizeFilePath searchPath))
           (split_slash (normalizeFilePath (zname file)))"
proof (cases "zip_file z (normalizeFilePath searchPath)")
  case (Some f)
  with assms have "f = file" by (simp add: findFileInZip_def)
  with Some have "zname file = normalizeFilePath searchPath"
    by (auto dest: zip_file_SomeD)
  then show ?thesis by (simp add: normalizeFilePath_idem)
next
  case None
  with assms obtain m where
    m: "find (tailMatches (normalizeFilePath searchPath)) (map normalizeFilePath (zip_keys z)) = Some m"
    and f: "zip_file z m = Some file"
    by (auto simp: findFileInZip_def Let_def split: option.splits if_splits)
  from m have "m \<in> set (map normalizeFilePath (zip_keys z))"
    and t: "tailMatches (normalizeFilePath searchPath) m"
    by (auto dest: find_in_set)
  then have "normalizeFilePath m = m" by (auto simp: normalizeFilePath_idem)
  moreover from f have "zname file = m" by (auto dest: zip_file_SomeD)
  ultimately show ?thesis using t by (simp add: tailMatches_suffix)
qed

lemma findEntryInTar_tail:
  "findEntryInTar t n = Some e \<Longrightarrow>
     suffix (split_slash n) (split_slash (normalizeFilePath (tname e)))"
  by (induction t n rule: findEntryInTar.induct)
     (auto simp: matchFromEnd_suffix split: if_splits)

lemmas resolver_eval = findFileInZip_def findFileInZip_MainTestFolder_def resolve_spec_def
  zip_file_def zip_keys_def tailMatches_suffix suffix_to_prefix

text \<open>
  C1 (as amended). In the variants that match path segments from the end, the entry
  \<^verbatim>\<open>findFileInZip\<close> returns, and the entry whose buffer \<^verbatim>\<open>findFileInTar\<close>
  returns, has a normalized path whose segments end with the segments of the normalized
  search path, over the full length of the search path.
\<close>

theorem resolver_match_ends_with_search_segments:
  "(findFileInZip z searchPath = Some file \<longrightarrow>
      suffix (split_slash (normalizeFilePath searchPath))
        (split_slash (normalizeFilePath (zname file))))
   \<and> (findEntryInTar t (normalizeFilePath searchPath) = Some entry \<longrightarrow>
      suffix (split_slash (normalizeFilePath searchPath))
        (split_slash (normalizeFilePath (tname entry))))"
proof (intro conjI impI)
  assume "findFileInZip z searchPath = Some file"
  then show "suffix (split_slash (normalizeFilePath searchPath))
      (split_slash (normalizeFilePath (zname file)))"
    by (rule findFileInZip_tail)
next
  assume "findEntryInTar t (normalizeFilePath searchPath) = Some entry"
  then show "suffix (split_slash (normalizeFilePath searchPath))
      (split_slash (normalizeFilePath (tname entry)))"
    by (rule findEntryInTar_tail)
qed

theorem resolver_match_ends_with_search_segments_witness:
  "findFileInZip [\<lparr>zname = ''a/b/c.txt'', dir = False, content = [7]\<rparr>] ''b/c.txt''
     = Some \<lparr>zname = ''a/b/c.txt'', dir = False, content = [7]\<rparr>
   \<and> findEntryInTar [Some \<lparr>tname = ''a/b/c.txt'', buffer = [7]\<rparr>] (normalizeFilePath ''b/c.txt'')
     = Some \<lparr>tname = ''a/b/c.txt'', buffer = [7]\<rparr>
   \<and> suffix (split_slash (normalizeFilePath ''b/c.txt''))
        (split_slash (normalizeFilePath ''a/b/c.txt''))"
proof -
  have z: "findFileInZip [\<lparr>zname = ''a/b/c.txt'', dir = False, content = [7]\<rparr>] ''b/c.txt''
     = Some \<lparr>zname = ''a/b/c.txt'', dir = False, content = [7]\<rparr>"
    by (simp add: resolver_eval path_eval)
  have t: "findEntryInTar [Some \<lparr>tname = ''a/b/c.txt'', buffer = [7]\<rparr>] (normalizeFilePath ''b/c.txt'')
     = Some \<lparr>tname = ''a/b/c.txt'', buffer = [7]\<rparr>"
    by (simp add: matchFromEnd_suffix suffix_to_prefix path_eval)
  from z t resolver_match_ends_with_search_segments
    [of "[\<lparr>zname = ''a/b/c.txt'', dir = False, content = [7]\<rparr>]" "''b/c.txt''"
        "\<lparr>zname = ''a/b/c.txt'', dir = False, content = [7]\<rparr>"
        "[Some \<lparr>tname = ''a/b/c.txt'', buffer = [7]\<rparr>]"
        "\<lparr>tname = ''a/b/c.txt'', buffer = [7]\<rparr>"]
  show ?thesis by simp
qed

text \<open>
  C1 as stated fails on the variants that try \<^verbatim>\<open>MainTestFolder\<close>: their last step
  compares the end of the path as a string, so the entry \<^verbatim>\<open>xb/c.txt\<close> is the match
  for the link \<^verbatim>\<open>b/c.txt\<close>, and its segments do not end with those of the link.
\<close>

theorem findFileInZip_MainTestFolder_not_segmentwise:
  "findFileInZip_MainTestFolder [\<lparr>zname = ''xb/c.txt'', dir = False, content = [1, 2]\<rparr>] ''b/c.txt''
     = Some \<lparr>zname = ''xb/c.txt'', dir = False, content = [1, 2]\<rparr>
   \<and> \<not> suffix (split_slash (normalizeFilePath ''b/c.txt''))
          (split_slash (normalizeFilePath ''xb/c.txt''))"
  by (simp add: resolver_eval path_eval)

lemma find_map_comp: "find P (map f xs) = map_option f (find (\<lambda>x. P (f x)) xs)"
  by (induction xs) auto

lemma find_same_key:
  "find P xs = Some e \<Longrightarrow> (\<And>x. x \<in> set xs \<Longrightarrow> f x = f e \<Longrightarrow> P x) \<Longrightarrow>
     find (\<lambda>x. f x = f e) xs = Some e"
  by (induction xs) (auto split: if_splits)

lemma split_slash_not_Nil: "split_slash s \<noteq> []"
  by (induction s) (auto split: list.splits)

lemma split_slash_single: "split_slash s = [w] \<Longrightarrow> w = s"
  by (induction s arbitrary: w) (auto simp: split_slash_not_Nil split: list.splits if_splits)

text \<open>The last segment of a path is empty for the empty path and for a path that ends with a slash, and for no other.\<close>

lemma last_split_slash: "last (split_slash s) = [] \<longleftrightarrow> s = [] \<or> last s = slash"
proof (induction s)
  case Nil
  show ?case by simp
next
  case (Cons c cs)
  show ?case
  proof (cases "c = slash")
    case True
    with Cons show ?thesis by (auto simp: split_slash_not_Nil)
  next
    case False
    obtain w ws where sp: "split_slash cs = w # ws"
      using split_slash_not_Nil [of cs] by (cases "split_slash cs") auto
    show ?thesis
    proof (cases ws)
      case Nil
      with sp have "w = cs" by (auto dest: split_slash_single)
      with sp Nil Cons False show ?thesis by auto
    next
      case (Cons v vs)
      with sp Cons.IH False show ?thesis by (cases cs) auto
    qed
  qed
qed

text \<open>
  C3 (as amended). For an archive whose stored paths are already normalized and whose
  directory markers end with a slash, and a search path whose normalized form is not
  empty and does not end with a slash, the segment-matching \<^verbatim>\<open>findFileInZip\<close> is
  exactly the two-step policy: the entry whose path equals the normalized search path,
  and otherwise the first entry in listing order whose path ends with the segments of the
  search path.
\<close>

theorem findFileInZip_two_step_policy:
  assumes norm: "\<forall>e\<in>set z. normalizeFilePath (zname e) = zname e"
    and dirs: "\<forall>e\<in>set z. dir e \<longrightarrow> zname e \<noteq> [] \<and> last (zname e) = slash"
    and nonempty: "normalizeFilePath searchPath \<noteq> []"
    and noslash: "last (normalizeFilePath searchPath) \<noteq> slash"
  shows "findFileInZip z searchPath = resolve_spec z searchPath"
proof -
  define n where "n = normalizeFilePath searchPath"
  have base: "last (split_slash (normalizeFilePath searchPath)) \<noteq> []"
    using nonempty noslash by (simp add: last_split_slash)
  have exact: "find (\<lambda>e. normalizeFilePath (zname e) = n) z = find (\<lambda>e. zname e = n) z"
    using norm by (intro find_cong) auto
  have tm: "find (tailMatches n) (map normalizeFilePath (zip_keys z))
              = map_option zname (find (\<lambda>e. suffix (split_slash n) (split_slash (normalizeFilePath (zname e)))) z)"
  proof -
    have "find (tailMatches n) (map normalizeFilePath (zip_keys z))
            = map_option (\<lambda>e. normalizeFilePath (zname e)) (find (\<lambda>e. tailMatches n (normalizeFilePath (zname e))) z)"
      by (simp add: zip_keys_def find_map_comp comp_def)
    also have "\<dots> = map_option zname (find (\<lambda>e. tailMatches n (normalizeFilePath (zname e))) z)"
      using norm by (cases "find (\<lambda>e. tailMatches n (normalizeFilePath (zname e))) z") (auto dest: find_in_set)
    finally show ?thesis by (simp add: tailMatches_suffix)
  qed
  have nodir: "\<not> dir e" if "e \<in> set z" "suffix (split_slash n) (split_slash (zname e))" for e
  proof
    assume "dir e"
    with dirs that have l: "last (split_slash (zname e)) = []"
      by (auto simp: last_split_slash)
    from that obtain pre where "split_slash (zname e) = pre @ split_slash n" by (auto simp: suffix_def)
    then have "last (split_slash (zname e)) = last (split_slash n)"
      by (simp add: split_slash_not_Nil)
    with l base show False by (simp add: n_def)
  qed
  show ?thesis
  proof (cases "find (\<lambda>e. zname e = n) z")
    case (Some e)
    then have "e \<in> set z" "zname e = n" by (auto dest: find_in_set)
    then have "\<not> dir e" using nodir [of e] by simp
    with Some show ?thesis
      by (simp add: findFileInZip_def resolve_spec_def zip_file_def exact flip: n_def)
  next
    case None
    then have zf: "zip_file z n = None" by (simp add: zip_file_def)
    show ?thesis
    proof (cases "find (\<lambda>e. suffix (split_slash n) (split_slash (normalizeFilePath (zname e)))) z")
      case N2: None
      with None zf show ?thesis
        by (simp add: findFileInZip_def resolve_spec_def exact tm flip: n_def)
    next
      case (Some e)
      then have e: "e \<in> set z" and s: "suffix (split_slash n) (split_slash (normalizeFilePath (zname e)))"
        by (auto dest: find_in_set)
      with norm have s': "suffix (split_slash n) (split_slash (zname e))" by simp
      have ne: "zname e \<noteq> []"
      proof
        assume "zname e = []"
        with s' have "split_slash n = [[]]"
          using split_slash_not_Nil [of n] by (auto simp: suffix_def Cons_eq_append_conv)
        with base show False by (simp add: n_def)
      qed
      have "find (\<lambda>x. zname x = zname e) z = Some e"
      proof (rule find_same_key [OF Some])
        fix x assume "x \<in> set z" "zname x = zname e"
        with s show "suffix (split_slash n) (split_slash (normalizeFilePath (zname x)))" by simp
      qed
      then have "zip_file z (zname e) = Some e"
        using nodir [OF e s'] by (simp add: zip_file_def)
      with None zf Some ne show ?thesis
        by (simp add: findFileInZip_def resolve_spec_def exact tm flip: n_def)
    qed
  qed
qed

theorem findFileInZip_two_step_policy_witness:
  "normalizeFilePath ''a.txt'' \<noteq> []
   \<and> last (normalizeFilePath ''a.txt'') \<noteq> slash
   \<and> findFileInZip [\<lparr>zname = ''x/'', dir = True, content = []\<rparr>,
              \<lparr>zname = ''x/a.txt'', dir = False, content = [1]\<rparr>,
              \<lparr>zname = ''y/a.txt'', dir = False, content = [2]\<rparr>] ''a.txt''
     = resolve_spec [\<lparr>zname = ''x/'', dir = True, content = []\<rparr>,
              \<lparr>zname = ''x/a.txt'', dir = False, content = [1]\<rparr>,
              \<lparr>zname = ''y/a.txt'', dir = False, content = [2]\<rparr>] ''a.txt''
   \<and> resolve_spec [\<lparr>zname = ''x/'', dir = True, content = []\<rparr>,
              \<lparr>zname = ''x/a.txt'', dir = False, content = [1]\<rparr>,
              \<lparr>zname = ''y/a.txt'', dir = False, content = [2]\<rparr>] ''a.txt''
     = Some \<lparr>zname = ''x/a.txt'', dir = False, content = [1]\<rparr>"
proof -
  let ?z = "[\<lparr>zname = ''x/'', dir = True, content = []\<rparr>,
              \<lparr>zname = ''x/a.txt'', dir = False, content = [1]\<rparr>,
              \<lparr>zname = ''y/a.txt'', dir = False, content = [2]\<rparr>]"
  have a: "\<forall>e\<in>set ?z. normalizeFilePath (zname e) = zname e"
    by (simp add: path_eval)
  have b: "\<forall>e\<in>set ?z. dir e \<longrightarrow> zname e \<noteq> [] \<and> last (zname e) = slash"
    by simp
  have c: "normalizeFilePath ''a.txt'' \<noteq> []"
    by (simp add: path_eval)
  have c': "last (normalizeFilePath ''a.txt'') \<noteq> slash"
    by (simp add: path_eval)
  have d: "resolve_spec ?z ''a.txt'' = Some \<lparr>zname = ''x/a.txt'', dir = False, content = [1]\<rparr>"
    by (simp add: resolver_eval path_eval)
  from findFileInZip_two_step_policy [OF a b c c'] c c' d show ?thesis by simp
qed

text \<open>
  C3 as stated fails in three ways. The variants with \<^verbatim>\<open>MainTestFolder\<close> look the
  search path up under that directory between the two steps, so a later entry under
  \<^verbatim>\<open>MainTestFolder\<close> is preferred to an earlier entry with the same tail. The
  segment-matching variant compares the stored path, not the normalized one, in its first
  step; and it never returns a directory marker: not when the marker's path equals a
  search path that ends with a slash, and not when the search path, or its normalized
  form, is empty or ends with a backslash, so that its last segment is empty and every
  directory marker matches it from the end.
\<close>

theorem resolver_policy_counterexample:
  "findFileInZip_MainTestFolder
      [\<lparr>zname = ''x/a.txt'', dir = False, content = [1]\<rparr>,
       \<lparr>zname = ''MainTestFolder/a.txt'', dir = False, content = [2]\<rparr>] ''a.txt''
     = Some \<lparr>zname = ''MainTestFolder/a.txt'', dir = False, content = [2]\<rparr>
   \<and> resolve_spec
      [\<lparr>zname = ''x/a.txt'', dir = False, content = [1]\<rparr>,
       \<lparr>zname = ''MainTestFolder/a.txt'', dir = False, content = [2]\<rparr>] ''a.txt''
     = Some \<lparr>zname = ''x/a.txt'', dir = False, content = [1]\<rparr>
   \<and> findFileInZip [\<lparr>zname = ''/a.txt'', dir = False, content = [3]\<rparr>] ''a.txt'' = None
   \<and> resolve_spec [\<lparr>zname = ''/a.txt'', dir = False, content = [3]\<rparr>] ''a.txt''
     = Some \<lparr>zname = ''/a.txt'', dir = False, content = [3]\<rparr>
   \<and> findFileInZip [\<lparr>zname = ''a/'', dir = True, content = []\<rparr>] ''a/'' = None
   \<and> resolve_spec [\<lparr>zname = ''a/'', dir = True, content = []\<rparr>] ''a/''
     = Some \<lparr>zname = ''a/'', dir = True, content = []\<rparr>
   \<and> findFileInZip [\<lparr>zname = ''x/'', dir = True, content = []\<rparr>] [] = None
   \<and> resolve_spec [\<lparr>zname = ''x/'', dir = True, content = []\<rparr>] []
     = Some \<lparr>zname = ''x/'', dir = True, content = []\<rparr>
   \<and> findFileInZip [\<lparr>zname = ''x/'', dir = True, content = []\<rparr>] [CHR ''x'', backslash]
     = None
   \<and> resolve_spec [\<lparr>zname = ''x/'', dir = True, content = []\<rparr>] [CHR ''x'', backslash]
     = Some \<lparr>zname = ''x/'', dir = True, content = []\<rparr>"
  by (simp add: resolver_eval path_eval)

text \<open>
  An archive none of whose stored paths is in normalized form resolves no link at all:
  the resolver asks the archive for normalized paths only.
\<close>

lemma findFileInZip_unnormalized_keys:
  assumes "\<forall>e\<in>set z. normalizeFilePath (zname e) \<noteq> zname e"
  shows "findFileInZip z searchPath = None"
proof (cases "findFileInZip z searchPath")
  case (Some obj)
  have "zname obj = normalizeFilePath (zname obj) \<and> obj \<in> set z"
  proof (cases "zip_file z (normalizeFilePath searchPath)")
    case f: (Some f)
    with Some have "f = obj" by (simp add: findFileInZip_def)
    with f show ?thesis
      by (auto dest!: zip_file_SomeD simp: normalizeFilePath_idem)
  next
    case None
    with Some obtain m where
      m: "find (tailMatches (normalizeFilePath searchPath)) (map normalizeFilePath (zip_keys z)) = Some m"
      and f: "zip_file z m = Some obj"
      by (auto simp: findFileInZip_def Let_def split: option.splits if_splits)
    from m have "normalizeFilePath m = m"
      by (auto dest!: find_in_set simp: normalizeFilePath_idem)
    with f show ?thesis by (auto dest!: zip_file_SomeD)
  qed
  with assms show ?thesis by auto
qed simp

text \<open>
  C10. The ZIP resolver asks the archive for the normalized path of the entry it found,
  while the archive stores the entry under its raw path. An entry stored with a
  backslash, with a leading slash or with a doubled slash is therefore not returned,
  although its normalized path matches the search path from the end.
\<close>

theorem findFileInZip_raw_key_NotFound:
  "findFileInZip [\<lparr>zname = [CHR ''a'', backslash, CHR ''b'', CHR ''.'', CHR ''t''], dir = False, content = [1]\<rparr>] ''b.t'' = None
   \<and> tailMatches (normalizeFilePath ''b.t'') (normalizeFilePath [CHR ''a'', backslash, CHR ''b'', CHR ''.'', CHR ''t''])
   \<and> findFileInZip [\<lparr>zname = ''/a/b.t'', dir = False, content = [1]\<rparr>] ''b.t'' = None
   \<and> tailMatches (normalizeFilePath ''b.t'') (normalizeFilePath ''/a/b.t'')
   \<and> findFileInZip [\<lparr>zname = ''a//b.t'', dir = False, content = [1]\<rparr>] ''b.t'' = None
   \<and> tailMatches (normalizeFilePath ''b.t'') (normalizeFilePath ''a//b.t'')"
proof -
  have n1: "normalizeFilePath [CHR ''a'', backslash, CHR ''b'', CHR ''.'', CHR ''t''] = ''a/b.t''"
    and n2: "normalizeFilePath ''/a/b.t'' = ''a/b.t''"
    and n3: "normalizeFilePath ''a//b.t'' = ''a/b.t''"
    and n0: "normalizeFilePath ''b.t'' = ''b.t''"
    by (simp_all add: path_eval)
  have tail: "tailMatches ''b.t'' ''a/b.t''"
    by (simp add: tailMatches_suffix suffix_to_prefix)
  have "findFileInZip [\<lparr>zname = [CHR ''a'', backslash, CHR ''b'', CHR ''.'', CHR ''t''], dir = False, content = [1]\<rparr>] ''b.t'' = None"
    by (rule findFileInZip_unnormalized_keys) (simp add: n1)
  moreover have "findFileInZip [\<lparr>zname = ''/a/b.t'', dir = False, content = [1]\<rparr>] ''b.t'' = None"
    by (rule findFileInZip_unnormalized_keys) (simp add: n2)
  moreover have "findFileInZip [\<lparr>zname = ''a//b.t'', dir = False, content = [1]\<rparr>] ''b.t'' = None"
    by (rule findFileInZip_unnormalized_keys) (simp add: n3)
  ultimately show ?thesis
    using tail by (simp only: n1 n2 n3 n0)
qed

section \<open>The counts of a group\<close>

lemmas run_eval = processFiles_def tryBlock_def processFolderConfig_def linksOf_def
  processLink_def baseName_def determineOperation_def toLowerCase_def char_lower_def
  js_includes_def sublist_Cons_right template_throws_def resolver_eval path_eval Let_def

lemmas archive_eval = archive_files_def store_write_def write_path_def folder_root_def
  forceTrailingSlash_def


lemmas part_001_eval = processFiles_part_001_def tryBlock_part_001_def finish_part_001_def
  processFolderConfig_part_001_def processLink_part_001_def linksOf_def zipContent_def
  findFileInTar_def isTarFile_def baseName_def toLowerCase_def char_lower_def
  suffix_to_prefix template_throws_def resolver_eval path_eval Let_def

lemmas example_defs = example_state_def example_archive_def example_zip_def example_config_def

lemma example_run:
  "processFiles example_state (Some example_archive) (Some (Parsed example_config)) =
     \<lparr>status = StatusSuccess, errorMessage = None,
      processedZip = Some [(Some (JStr ''GroupA''), ''update_file.txt'', [1, 2]),
                           (Some (JStr ''GroupA''), ''file2.txt'', [3])],
      debug = [StartingFileProcessing, JsonConfigurationLoaded,
        ProcessingFolder (Some (JStr ''GroupA'')),
        ProcessingFile (JStr ''folder/update_file.txt''),
        SuccessfullyProcessedFile ''update_file.txt'' Update,
        ProcessingFile (JStr ''other/file2.txt''),
        SuccessfullyProcessedFile ''file2.txt'' Insert,
        ProcessingFile (JStr ''missing.txt''),
        WarningFileNotFound ''missing.txt'',
        FileProcessingCompleted],
      folderStats = [\<lparr>name = Some (JStr ''GroupA''), fileCount = 2, insertCount = 1,
         updateCount = 1, files = [(''update_file.txt'', Update), (''file2.txt'', Insert)]\<rparr>],
      reads = [ReadJsonFile, ReadArchiveFile]\<rparr>"
  by (simp add: example_defs run_eval)

lemma stats_ok_init:
  "stats_ok \<lparr>name = n, fileCount = 0, insertCount = 0, updateCount = 0, files = []\<rparr>"
  by (simp add: stats_ok_def)

lemma processLink_stats_ok:
  assumes "stats_ok folderStat"
    and "processLink sourceZip folderName link (folderStat, out, dbg) = (r, (folderStat', out', dbg'))"
  shows "stats_ok folderStat'"
  using assms
  by (auto simp: processLink_def stats_ok_def Let_def split: json.splits option.splits if_splits)

lemma processLinks_stats_ok:
  "stats_ok folderStat \<Longrightarrow>
   processLinks sourceZip folderName links (folderStat, out, dbg) = (r, (folderStat', out', dbg')) \<Longrightarrow>
   stats_ok folderStat'"
proof (induction links arbitrary: folderStat out dbg)
  case Nil
  then show ?case by simp
next
  case (Cons link links)
  obtain r1 f1 o1 d1 where
    step: "processLink sourceZip folderName link (folderStat, out, dbg) = (r1, (f1, o1, d1))"
    by (metis prod_cases3)
  have ok1: "stats_ok f1"
    using Cons.prems(1) step by (rule processLink_stats_ok)
  show ?case
  proof (cases r1)
    case None
    with Cons.prems(2) step have "processLinks sourceZip folderName links (f1, o1, d1) = (r, (folderStat', out', dbg'))"
      by simp
    with ok1 show ?thesis by (rule Cons.IH)
  next
    case (Some e)
    with Cons.prems(2) step have "folderStat' = f1" by simp
    with ok1 show ?thesis by simp
  qed
qed

lemma processFolderConfig_stats_ok:
  assumes "list_all stats_ok newFolderStats"
    and "processFolderConfig sourceZip folderConfig (newFolderStats, out, dbg) = (r, (stats', out', dbg'))"
  shows "list_all stats_ok stats'"
proof (cases "\<not> truthy folderConfig \<or> \<not> typeof_object folderConfig")
  case True
  with assms show ?thesis by (auto simp: processFolderConfig_def)
next
  case False
  show ?thesis
  proof (cases "linksOf folderConfig")
    case (Inl e)
    with False assms show ?thesis
      by (auto simp: processFolderConfig_def Let_def split: if_splits)
  next
    case (Inr links)
    let ?init = "\<lparr>name = js_get folderConfig ''Review Text'', fileCount = 0, insertCount = 0,
                   updateCount = 0, files = []\<rparr>"
    obtain r1 f1 o1 d1 where
      run: "processLinks sourceZip (js_get folderConfig ''Review Text'') links
              (?init, out, dbg @ [ProcessingFolder (js_get folderConfig ''Review Text'')]) = (r1, (f1, o1, d1))"
      by (metis prod_cases3)
    have "stats_ok f1"
      using stats_ok_init run by (rule processLinks_stats_ok)
    with False Inr run assms show ?thesis
      by (cases r1) (auto simp: processFolderConfig_def Let_def split: if_splits)
  qed
qed

lemma processFolderConfigs_stats_ok:
  "list_all stats_ok newFolderStats \<Longrightarrow>
   processFolderConfigs sourceZip folderConfigs (newFolderStats, out, dbg) = (r, (stats', out', dbg')) \<Longrightarrow>
   list_all stats_ok stats'"
proof (induction folderConfigs arbitrary: newFolderStats out dbg)
  case Nil
  then show ?case by simp
next
  case (Cons c cs)
  obtain r1 f1 o1 d1 where
    step: "processFolderConfig sourceZip c (newFolderStats, out, dbg) = (r1, (f1, o1, d1))"
    by (metis prod_cases3)
  have ok1: "list_all stats_ok f1"
    using Cons.prems(1) step by (rule processFolderConfig_stats_ok)
  show ?case
  proof (cases r1)
    case None
    with Cons.prems(2) step have "processFolderConfigs sourceZip cs (f1, o1, d1) = (r, (stats', out', dbg'))"
      by simp
    with ok1 show ?thesis by (rule Cons.IH)
  next
    case (Some e)
    with Cons.prems(2) step have "stats' = f1" by simp
    with ok1 show ?thesis by simp
  qed
qed

lemma isArray_iff: "isArray v \<longleftrightarrow> (\<exists>xs. v = JArr xs)"
  by (cases v) auto

lemma tryBlock_success_stats_ok:
  assumes "tryBlock archive json st = (None, st')"
  shows "list_all stats_ok (folderStats st')"
proof -
  from assms obtain config where j: "json = Parsed config"
    by (cases json) (auto simp: tryBlock_def Let_def)
  from assms j obtain cs where c: "config = JArr cs"
    by (cases config) (auto simp: tryBlock_def Let_def)
  from assms j c obtain z where z: "loadAsync archive = Inr z"
    by (cases "loadAsync archive") (auto simp: tryBlock_def Let_def)
  let ?d = "debug st @ [StartingFileProcessing, JsonConfigurationLoaded]"
  obtain r1 f1 o1 d1 where
    run: "processFolderConfigs z cs ([], [], ?d) = (r1, (f1, o1, d1))"
    by (metis prod_cases3)
  have ok: "list_all stats_ok f1"
    using _ run by (rule processFolderConfigs_stats_ok) simp
  from assms j c z run have "r1 = None" and "folderStats st' = f1"
    by (cases r1; auto simp: tryBlock_def Let_def)+
  with ok show ?thesis by simp
qed

lemma processFiles_success_stats_ok:
  assumes "status (processFiles st (Some archive) (Some json)) = StatusSuccess"
  shows "list_all stats_ok (folderStats (processFiles st (Some archive) (Some json)))"
proof -
  obtain r st' where t: "tryBlock archive json st = (r, st')" by (cases "tryBlock archive json st")
  show ?thesis
  proof (cases r)
    case None
    with t have "processFiles st (Some archive) (Some json) = st'" by (simp add: processFiles_def)
    with tryBlock_success_stats_ok t None show ?thesis by simp
  next
    case (Some e)
    with t assms show ?thesis by (simp add: processFiles_def)
  qed
qed

text \<open>
  C4. The statistics a group starts with satisfy
  \<open>insertCount + updateCount = fileCount = length files\<close>, every step of the loop over
  the links keeps it, and every record of statistics of a completed run satisfies it.
\<close>

theorem folderStats_counts_invariant:
  "stats_ok \<lparr>name = folderName, fileCount = 0, insertCount = 0, updateCount = 0, files = []\<rparr>
   \<and> (stats_ok folderStat \<longrightarrow>
      stats_ok (fst (snd (processLink sourceZip folderName link (folderStat, out, dbg)))))
   \<and> (status (processFiles st (Some archive) (Some json)) = StatusSuccess \<longrightarrow>
      (\<forall>s\<in>set (folderStats (processFiles st (Some archive) (Some json))). stats_ok s))"
proof (intro conjI impI)
  show "stats_ok \<lparr>name = folderName, fileCount = 0, insertCount = 0, updateCount = 0,
          files = []\<rparr>"
    by (rule stats_ok_init)
next
  assume "stats_ok folderStat"
  then show "stats_ok (fst (snd (processLink sourceZip folderName link (folderStat, out, dbg))))"
    using processLink_stats_ok
    by (metis prod.collapse)
next
  assume "status (processFiles st (Some archive) (Some json)) = StatusSuccess"
  then show "\<forall>s\<in>set (folderStats (processFiles st (Some archive) (Some json))). stats_ok s"
    using processFiles_success_stats_ok by (simp add: list_all_iff)
qed

theorem folderStats_counts_invariant_witness:
  "stats_ok \<lparr>name = Some (JStr ''GroupA''), fileCount = 0, insertCount = 0, updateCount = 0,
             files = []\<rparr>
   \<and> stats_ok (fst (snd (processLink example_zip (Some (JStr ''GroupA''))
        (JStr ''folder/update_file.txt'')
        (\<lparr>name = Some (JStr ''GroupA''), fileCount = 0, insertCount = 0, updateCount = 0,
          files = []\<rparr>, [], []))))
   \<and> status (processFiles example_state (Some example_archive) (Some (Parsed example_config)))
       = StatusSuccess
   \<and> list_all stats_ok
       (folderStats (processFiles example_state (Some example_archive)
          (Some (Parsed example_config))))"
proof -
  have a: "stats_ok \<lparr>name = Some (JStr ''GroupA''), fileCount = 0, insertCount = 0,
             updateCount = 0, files = []\<rparr>"
    by (simp add: stats_ok_def)
  have b: "status (processFiles example_state (Some example_archive)
             (Some (Parsed example_config))) = StatusSuccess"
    by (simp add: example_run)
  from a b folderStats_counts_invariant
    [where folderStat = "\<lparr>name = Some (JStr ''GroupA''), fileCount = 0, insertCount = 0,
          updateCount = 0, files = []\<rparr>"
       and sourceZip = example_zip and folderName = "Some (JStr ''GroupA'')"
       and link = "JStr ''folder/update_file.txt''" and out = "[]" and dbg = "[]"
       and st = example_state and archive = example_archive
       and json = "Parsed example_config"]
  show ?thesis by (simp add: list_all_iff)
qed

section \<open>The operation of a resolved link\<close>

lemma char_lower_slash: "char_lower c = slash \<longleftrightarrow> c = slash"
  by (simp add: char_lower_def)

lemma char_lower_backslash: "char_lower c = backslash \<longleftrightarrow> c = backslash"
  by (simp add: char_lower_def)

lemma toLowerCase_replace_backslashes:
  "toLowerCase (replace_backslashes s) = replace_backslashes (toLowerCase s)"
  by (induction s) (auto simp: toLowerCase_def replace_backslashes_def char_lower_slash char_lower_backslash)

lemma toLowerCase_strip_leading_slashes:
  "toLowerCase (strip_leading_slashes s) = strip_leading_slashes (toLowerCase s)"
  by (induction s) (auto simp: toLowerCase_def strip_leading_slashes_def char_lower_slash)

lemma toLowerCase_collapse_slashes:
  "toLowerCase (collapse_slashes s) = collapse_slashes (toLowerCase s)"
  by (induction s rule: collapse_slashes.induct) (auto simp: toLowerCase_def char_lower_slash)

lemma toLowerCase_normalizeFilePath:
  "toLowerCase (normalizeFilePath s) = normalizeFilePath (toLowerCase s)"
  by (simp add: normalizeFilePath_def toLowerCase_collapse_slashes
      toLowerCase_strip_leading_slashes toLowerCase_replace_backslashes)

text \<open>A pattern without separators occurs in a path exactly when it occurs in the normalized path.\<close>

lemma prefix_replace_backslashes:
  "slash \<notin> set pat \<Longrightarrow> backslash \<notin> set pat \<Longrightarrow>
   prefix pat (replace_backslashes s) \<longleftrightarrow> prefix pat s"
proof (induction s arbitrary: pat)
  case Nil
  then show ?case by (simp add: replace_backslashes_def)
next
  case (Cons c s)
  show ?case
  proof (cases pat)
    case Nil
    then show ?thesis by simp
  next
    case (Cons x xs)
    with Cons.prems Cons.IH [of xs] show ?thesis
      by (auto simp: replace_backslashes_def)
  qed
qed

lemma sublist_replace_backslashes:
  "slash \<notin> set pat \<Longrightarrow> backslash \<notin> set pat \<Longrightarrow>
   sublist pat (replace_backslashes s) \<longleftrightarrow> sublist pat s"
proof (induction s)
  case Nil
  then show ?case by (simp add: replace_backslashes_def)
next
  case (Cons c s)
  have "replace_backslashes (c # s) = (if c = backslash then slash else c) # replace_backslashes s"
    by (simp add: replace_backslashes_def)
  then have "sublist pat (replace_backslashes (c # s))
      \<longleftrightarrow> prefix pat (replace_backslashes (c # s)) \<or> sublist pat (replace_backslashes s)"
    by (simp add: sublist_Cons_right)
  with Cons show ?case
    by (simp add: prefix_replace_backslashes sublist_Cons_right)
qed

lemma sublist_strip_leading_slashes:
  "slash \<notin> set pat \<Longrightarrow> pat \<noteq> [] \<Longrightarrow>
   sublist pat (strip_leading_slashes s) \<longleftrightarrow> sublist pat s"
proof (induction s)
  case Nil
  then show ?case by (simp add: strip_leading_slashes_def)
next
  case (Cons c s)
  show ?case
  proof (cases "c = slash")
    case True
    have "\<not> prefix pat (c # s)"
      using Cons.prems True by (cases pat) auto
    with True Cons show ?thesis
      by (simp add: strip_leading_slashes_def sublist_Cons_right)
  next
    case False
    then show ?thesis by (simp add: strip_leading_slashes_def)
  qed
qed

lemma prefix_collapse_slashes:
  "slash \<notin> set pat \<Longrightarrow> prefix pat (collapse_slashes s) \<longleftrightarrow> prefix pat s"
proof (induction s arbitrary: pat rule: collapse_slashes.induct)
  case 1
  then show ?case by simp
next
  case (2 c)
  then show ?case by simp
next
  case (3 c d cs)
  show ?case
  proof (cases pat)
    case Nil
    then show ?thesis by simp
  next
    case (Cons x xs)
    with "3.prems" have x: "x \<noteq> slash" and xs: "slash \<notin> set xs" by auto
    show ?thesis
    proof (cases "c = slash \<and> d = slash")
      case True
      with "3.IH"(1) [OF True "3.prems"] Cons x show ?thesis by auto
    next
      case False
      with "3.IH"(2) [OF False xs] Cons show ?thesis by auto
    qed
  qed
qed

lemma sublist_collapse_slashes:
  "slash \<notin> set pat \<Longrightarrow> pat \<noteq> [] \<Longrightarrow>
   sublist pat (collapse_slashes s) \<longleftrightarrow> sublist pat s"
proof (induction s rule: collapse_slashes.induct)
  case 1
  then show ?case by simp
next
  case (2 c)
  then show ?case by simp
next
  case (3 c d cs)
  have whole: "sublist pat (c # d # cs) \<longleftrightarrow> prefix pat (c # d # cs) \<or> sublist pat (d # cs)"
    by (rule sublist_Cons_right)
  show ?case
  proof (cases "c = slash \<and> d = slash")
    case True
    have "\<not> prefix pat (c # d # cs)"
      using "3.prems" True by (cases pat) auto
    with whole have "sublist pat (c # d # cs) \<longleftrightarrow> sublist pat (d # cs)" by simp
    moreover have "collapse_slashes (c # d # cs) = collapse_slashes (d # cs)"
      using True by simp
    ultimately show ?thesis
      using "3.IH"(1) [OF True "3.prems"] by simp
  next
    case False
    have pre: "prefix pat (c # collapse_slashes (d # cs)) \<longleftrightarrow> prefix pat (c # d # cs)"
    proof (cases pat)
      case Nil
      then show ?thesis by simp
    next
      case (Cons x xs)
      with "3.prems" have "slash \<notin> set xs" by auto
      from prefix_collapse_slashes [OF this, of "d # cs"] Cons show ?thesis by simp
    qed
    have col: "collapse_slashes (c # d # cs) = c # collapse_slashes (d # cs)"
      using False by simp
    have "sublist pat (c # collapse_slashes (d # cs))
        \<longleftrightarrow> prefix pat (c # collapse_slashes (d # cs)) \<or> sublist pat (collapse_slashes (d # cs))"
      by (rule sublist_Cons_right)
    with pre whole col "3.IH"(2) [OF False "3.prems"] show ?thesis by simp
  qed
qed

lemma js_includes_normalizeFilePath:
  assumes "slash \<notin> set pat" and "backslash \<notin> set pat" and "pat \<noteq> []"
  shows "js_includes (normalizeFilePath s) pat \<longleftrightarrow> js_includes s pat"
  using assms
  by (simp add: js_includes_def normalizeFilePath_def sublist_collapse_slashes
      sublist_strip_leading_slashes sublist_replace_backslashes)

lemma determineOperation_normalizeFilePath:
  "determineOperation (normalizeFilePath link) = determineOperation link"
  by (simp add: determineOperation_def toLowerCase_normalizeFilePath js_includes_normalizeFilePath)

text \<open>
  C5. The operation assigned to a resolved link is \<open>Update\<close> exactly when the
  normalized link, in lower case, contains \<^verbatim>\<open>update\<close> or \<^verbatim>\<open>modify\<close>, and
  \<open>Insert\<close> otherwise. The code tests the link as configured; normalization does not
  change the outcome of the test.
\<close>

theorem resolved_link_operation:
  assumes "findFileInZip sourceZip l = Some file"
  shows "files (fst (snd (processLink sourceZip folderName (JStr l) (folderStat, out, dbg))))
     = files folderStat @
        [(baseName l,
          if js_includes (toLowerCase (normalizeFilePath l)) ''update''
             \<or> js_includes (toLowerCase (normalizeFilePath l)) ''modify''
          then Update else Insert)]"
proof -
  have "determineOperation l = determineOperation (normalizeFilePath l)"
    by (simp add: determineOperation_normalizeFilePath)
  then have "determineOperation l =
      (if js_includes (toLowerCase (normalizeFilePath l)) ''update''
          \<or> js_includes (toLowerCase (normalizeFilePath l)) ''modify''
       then Update else Insert)"
    by (simp add: determineOperation_def Let_def)
  with assms show ?thesis
    by (simp add: processLink_def Let_def)
qed

theorem resolved_link_operation_witness:
  "findFileInZip [\<lparr>zname = ''docs/MODIFY_me.txt'', dir = False, content = [9]\<rparr>]
       ''/docs//MODIFY_me.txt''
     = Some \<lparr>zname = ''docs/MODIFY_me.txt'', dir = False, content = [9]\<rparr>
   \<and> files (fst (snd (processLink
        [\<lparr>zname = ''docs/MODIFY_me.txt'', dir = False, content = [9]\<rparr>]
        (Some (JStr ''GroupA'')) (JStr ''/docs//MODIFY_me.txt'')
        (\<lparr>name = Some (JStr ''GroupA''), fileCount = 0, insertCount = 0, updateCount = 0,
          files = []\<rparr>, [], []))))
     = [(''MODIFY_me.txt'', Update)]"
proof -
  have a: "findFileInZip [\<lparr>zname = ''docs/MODIFY_me.txt'', dir = False, content = [9]\<rparr>]
       ''/docs//MODIFY_me.txt''
     = Some \<lparr>zname = ''docs/MODIFY_me.txt'', dir = False, content = [9]\<rparr>"
    by (simp add: resolver_eval path_eval)
  from a resolved_link_operation [OF a, of "Some (JStr ''GroupA'')"
      "\<lparr>name = Some (JStr ''GroupA''), fileCount = 0, insertCount = 0, updateCount = 0,
          files = []\<rparr>" "[]" "[]"]
  show ?thesis
    by (simp add: baseName_def toLowerCase_def char_lower_def js_includes_def
        sublist_Cons_right path_eval)
qed

section \<open>A configuration that is not an array\<close>

text \<open>
  C8. When the parsed configuration is not an array, the run ends in the error state
  with the validation message, sets no output blob, and has read the JSON file only: the
  archive is not read. This holds for the run of part_002 and for the run of part_000.
\<close>

theorem not_an_array_aborts:
  assumes "\<not> isArray config"
  shows "status (processFiles st (Some archive) (Some (Parsed config))) = StatusError
   \<and> errorMessage (processFiles st (Some archive) (Some (Parsed config)))
       = Some (Error ''Invalid JSON format: expected an array'')
   \<and> processedZip (processFiles st (Some archive) (Some (Parsed config))) = processedZip st
   \<and> folderStats (processFiles st (Some archive) (Some (Parsed config))) = folderStats st
   \<and> reads (processFiles st (Some archive) (Some (Parsed config))) = reads st @ [ReadJsonFile]
   \<and> debug (processFiles st (Some archive) (Some (Parsed config)))
       = debug st @ [StartingFileProcessing, JsonConfigurationLoaded,
           ErrorDuringProcessing (Error ''Invalid JSON format: expected an array'')]
   \<and> status (processFiles_part_000 st' (Some archive) (Some (Parsed config))) = StatusError
   \<and> errorMessage (processFiles_part_000 st' (Some archive) (Some (Parsed config)))
       = Some (Error ''Invalid JSON format: expected an array'')
   \<and> processedZip (processFiles_part_000 st' (Some archive) (Some (Parsed config)))
       = processedZip st'
   \<and> folderStats (processFiles_part_000 st' (Some archive) (Some (Parsed config)))
       = folderStats st'
   \<and> reads (processFiles_part_000 st' (Some archive) (Some (Parsed config)))
       = reads st' @ [ReadJsonFile]
   \<and> debug (processFiles_part_000 st' (Some archive) (Some (Parsed config)))
       = [ErrorLine (Error ''Invalid JSON format: expected an array'')]"
proof -
  have thrown: "tryBlock archive (Parsed config) st
      = (Some (Error ''Invalid JSON format: expected an array''),
         st\<lparr>status := StatusProcessing,
            debug := debug st @ [StartingFileProcessing, JsonConfigurationLoaded],
            reads := reads st @ [ReadJsonFile]\<rparr>)"
    using assms by (simp add: tryBlock_def Let_def)
  have thrown': "tryBlock_part_000 archive (Parsed config) st'
      = (Some (Error ''Invalid JSON format: expected an array''),
         st'\<lparr>status := StatusProcessing, debug := [],
             reads := reads st' @ [ReadJsonFile]\<rparr>)"
    using assms by (simp add: tryBlock_part_000_def Let_def)
  show ?thesis
    by (simp add: processFiles_def processFiles_part_000_def thrown thrown')
qed

theorem not_an_array_aborts_witness:
  "\<not> isArray (JObj [(''Review Text'', JStr ''GroupA'')])
   \<and> status (processFiles example_state (Some example_archive)
        (Some (Parsed (JObj [(''Review Text'', JStr ''GroupA'')])))) = StatusError
   \<and> processedZip (processFiles example_state (Some example_archive)
        (Some (Parsed (JObj [(''Review Text'', JStr ''GroupA'')])))) = None
   \<and> reads (processFiles example_state (Some example_archive)
        (Some (Parsed (JObj [(''Review Text'', JStr ''GroupA'')])))) = [ReadJsonFile]
   \<and> status (processFiles_part_000 example_state (Some example_archive)
        (Some (Parsed (JObj [(''Review Text'', JStr ''GroupA'')])))) = StatusError
   \<and> processedZip (processFiles_part_000 example_state (Some example_archive)
        (Some (Parsed (JObj [(''Review Text'', JStr ''GroupA'')])))) = None
   \<and> reads (processFiles_part_000 example_state (Some example_archive)
        (Some (Parsed (JObj [(''Review Text'', JStr ''GroupA'')])))) = [ReadJsonFile]"
proof -
  have a: "\<not> isArray (JObj [(''Review Text'', JStr ''GroupA'')])" by simp
  from a not_an_array_aborts [OF a, of example_state example_archive example_state]
  show ?thesis by (simp add: example_state_def)
qed

section \<open>A link that is not found\<close>

lemma processLink_not_found:
  "findFileInZip sourceZip l = None \<Longrightarrow>
   processLink sourceZip folderName (JStr l) (folderStat, out, dbg)
     = (None, (folderStat, out, dbg @ [ProcessingFile (JStr l), WarningFileNotFound l]))"
  by (simp add: processLink_def)

text \<open>The log is only written: what a loop does to the statistics and to the output does not depend on it.\<close>

lemma processLink_log:
  "processLink sourceZip folderName link (stat, out, d1) = (r, (stat', out', d1')) \<Longrightarrow>
   \<exists>d2'. processLink sourceZip folderName link (stat, out, d2) = (r, (stat', out', d2'))"
  by (cases "toString_throws link")
     (auto simp: processLink_def Let_def split: json.splits option.splits)

lemma processLinks_log:
  "processLinks sourceZip folderName links (stat, out, d1) = (r, (stat', out', d1')) \<Longrightarrow>
   \<exists>d2'. processLinks sourceZip folderName links (stat, out, d2) = (r, (stat', out', d2'))"
proof (induction links arbitrary: stat out d1 d2)
  case Nil
  then show ?case by simp
next
  case (Cons link links)
  obtain r1 f1 o1 e1 where
    step: "processLink sourceZip folderName link (stat, out, d1) = (r1, (f1, o1, e1))"
    by (metis prod_cases3)
  from processLink_log [OF step] obtain e2 where
    step2: "processLink sourceZip folderName link (stat, out, d2) = (r1, (f1, o1, e2))"
    by blast
  show ?case
  proof (cases r1)
    case None
    with Cons.prems step have "processLinks sourceZip folderName links (f1, o1, e1) = (r, (stat', out', d1'))"
      by simp
    from Cons.IH [OF this, of e2] None step2 show ?thesis by simp
  next
    case (Some e)
    with Cons.prems step step2 show ?thesis by auto
  qed
qed

lemma processLinks_without_not_found:
  assumes nf: "findFileInZip sourceZip l = None"
  shows "processLinks sourceZip folderName (ls1 @ JStr l # ls2) (stat, out, d) = (r, (stat', out', d')) \<Longrightarrow>
   \<exists>d2'. processLinks sourceZip folderName (ls1 @ ls2) (stat, out, d) = (r, (stat', out', d2'))"
proof (induction ls1 arbitrary: stat out d)
  case Nil
  then have "processLinks sourceZip folderName ls2
      (stat, out, d @ [ProcessingFile (JStr l), WarningFileNotFound l]) = (r, (stat', out', d'))"
    by (simp add: processLink_not_found [OF nf])
  from processLinks_log [OF this] show ?case by simp
next
  case (Cons link ls1)
  obtain r1 f1 o1 e1 where
    step: "processLink sourceZip folderName link (stat, out, d) = (r1, (f1, o1, e1))"
    by (metis prod_cases3)
  show ?case
  proof (cases r1)
    case None
    with Cons.prems step have "processLinks sourceZip folderName (ls1 @ JStr l # ls2) (f1, o1, e1) = (r, (stat', out', d'))"
      by simp
    from Cons.IH [OF this] None step show ?thesis by simp
  next
    case (Some e)
    with Cons.prems step show ?thesis by auto
  qed
qed

lemma js_get_Some_object: "js_get v k = Some x \<Longrightarrow> truthy v \<and> typeof_object v"
  by (cases v) auto

lemma processFolderConfig_log:
  "processFolderConfig sourceZip c (stats, out, d1) = (r, (stats', out', d1')) \<Longrightarrow>
   \<exists>d2'. processFolderConfig sourceZip c (stats, out, d2) = (r, (stats', out', d2'))"
proof (cases "\<not> truthy c \<or> \<not> typeof_object c")
  case True
  assume "processFolderConfig sourceZip c (stats, out, d1) = (r, (stats', out', d1'))"
  with True show ?thesis by (auto simp: processFolderConfig_def)
next
  case False
  assume a: "processFolderConfig sourceZip c (stats, out, d1) = (r, (stats', out', d1'))"
  show ?thesis
  proof (cases "linksOf c")
    case (Inl e)
    with False a show ?thesis by (auto simp: processFolderConfig_def Let_def split: if_splits)
  next
    case (Inr links)
    let ?n = "js_get c ''Review Text''"
    let ?init = "\<lparr>name = ?n, fileCount = 0, insertCount = 0, updateCount = 0, files = []\<rparr>"
    obtain r1 f1 o1 e1 where
      run: "processLinks sourceZip ?n links (?init, out, d1 @ [ProcessingFolder ?n]) = (r1, (f1, o1, e1))"
      by (metis prod_cases3)
    from processLinks_log [OF run] obtain e2 where
      run2: "processLinks sourceZip ?n links (?init, out, d2 @ [ProcessingFolder ?n]) = (r1, (f1, o1, e2))"
      by blast
    from False Inr run run2 a show ?thesis
      by (cases r1) (auto simp: processFolderConfig_def Let_def split: if_splits)
  qed
qed

lemma processFolderConfigs_log:
  "processFolderConfigs sourceZip cs (stats, out, d1) = (r, (stats', out', d1')) \<Longrightarrow>
   \<exists>d2'. processFolderConfigs sourceZip cs (stats, out, d2) = (r, (stats', out', d2'))"
proof (induction cs arbitrary: stats out d1 d2)
  case Nil
  then show ?case by simp
next
  case (Cons c cs)
  obtain r1 f1 o1 e1 where
    step: "processFolderConfig sourceZip c (stats, out, d1) = (r1, (f1, o1, e1))"
    by (metis prod_cases3)
  from processFolderConfig_log [OF step] obtain e2 where
    step2: "processFolderConfig sourceZip c (stats, out, d2) = (r1, (f1, o1, e2))"
    by blast
  show ?case
  proof (cases r1)
    case None
    with Cons.prems step have "processFolderConfigs sourceZip cs (f1, o1, e1) = (r, (stats', out', d1'))"
      by simp
    from Cons.IH [OF this, of e2] None step2 show ?thesis by simp
  next
    case (Some e)
    with Cons.prems step step2 show ?thesis by auto
  qed
qed

lemma processFolderConfig_without_not_found:
  assumes nf: "findFileInZip sourceZip l = None"
    and g: "js_get g ''Links'' = Some (JArr (ls1 @ JStr l # ls2))"
    and g': "js_get g' ''Links'' = Some (JArr (ls1 @ ls2))"
    and n: "js_get g' ''Review Text'' = js_get g ''Review Text''"
    and run: "processFolderConfig sourceZip g (stats, out, d) = (r, (stats', out', d'))"
  shows "\<exists>d2'. processFolderConfig sourceZip g' (stats, out, d) = (r, (stats', out', d2'))"
proof -
  let ?n = "js_get g ''Review Text''"
  let ?init = "\<lparr>name = ?n, fileCount = 0, insertCount = 0, updateCount = 0, files = []\<rparr>"
  have og: "truthy g \<and> typeof_object g" using g by (rule js_get_Some_object)
  have og': "truthy g' \<and> typeof_object g'" using g' by (rule js_get_Some_object)
  have lg: "linksOf g = Inr (ls1 @ JStr l # ls2)" using g by (simp add: linksOf_def)
  have lg': "linksOf g' = Inr (ls1 @ ls2)" using g' by (simp add: linksOf_def)
  obtain r1 f1 o1 e1 where
    links: "processLinks sourceZip ?n (ls1 @ JStr l # ls2) (?init, out, d @ [ProcessingFolder ?n]) = (r1, (f1, o1, e1))"
    by (metis prod_cases3)
  from processLinks_without_not_found [OF nf links] obtain e2 where
    links': "processLinks sourceZip ?n (ls1 @ ls2) (?init, out, d @ [ProcessingFolder ?n]) = (r1, (f1, o1, e2))"
    by blast
  from og og' lg lg' n links links' run show ?thesis
    by (cases r1) (auto simp: processFolderConfig_def Let_def split: if_splits)
qed

lemma processFolderConfigs_without_not_found:
  assumes nf: "findFileInZip sourceZip l = None"
    and g: "js_get g ''Links'' = Some (JArr (ls1 @ JStr l # ls2))"
    and g': "js_get g' ''Links'' = Some (JArr (ls1 @ ls2))"
    and n: "js_get g' ''Review Text'' = js_get g ''Review Text''"
  shows "processFolderConfigs sourceZip (pre @ g # post) (stats, out, d) = (r, (stats', out', d')) \<Longrightarrow>
     \<exists>d2'. processFolderConfigs sourceZip (pre @ g' # post) (stats, out, d) = (r, (stats', out', d2'))"
proof (induction pre arbitrary: stats out d)
  case Nil
  obtain r1 f1 o1 e1 where
    step: "processFolderConfig sourceZip g (stats, out, d) = (r1, (f1, o1, e1))"
    by (metis prod_cases3)
  from processFolderConfig_without_not_found [OF nf g g' n step] obtain e2 where
    step': "processFolderConfig sourceZip g' (stats, out, d) = (r1, (f1, o1, e2))"
    by blast
  show ?case
  proof (cases r1)
    case None
    with Nil step have "processFolderConfigs sourceZip post (f1, o1, e1) = (r, (stats', out', d'))"
      by simp
    from processFolderConfigs_log [OF this, of e2] None step' show ?thesis by simp
  next
    case (Some e)
    with Nil step step' show ?thesis by auto
  qed
next
  case (Cons c pre)
  obtain r1 f1 o1 e1 where
    step: "processFolderConfig sourceZip c (stats, out, d) = (r1, (f1, o1, e1))"
    by (metis prod_cases3)
  show ?case
  proof (cases r1)
    case None
    with Cons.prems step have "processFolderConfigs sourceZip (pre @ g # post) (f1, o1, e1) = (r, (stats', out', d'))"
      by simp
    from Cons.IH [OF this] None step show ?thesis by simp
  next
    case (Some e)
    with Cons.prems step show ?thesis by auto
  qed
qed

lemma processFiles_without_not_found:
  assumes nf: "findFileInZip sourceZip l = None"
    and load: "loadAsync archive = Inr sourceZip"
    and g: "js_get g ''Links'' = Some (JArr (ls1 @ JStr l # ls2))"
    and g': "js_get g' ''Links'' = Some (JArr (ls1 @ ls2))"
    and n: "js_get g' ''Review Text'' = js_get g ''Review Text''"
  shows "folderStats (processFiles st (Some archive) (Some (Parsed (JArr (pre @ g # post)))))
          = folderStats (processFiles st (Some archive) (Some (Parsed (JArr (pre @ g' # post)))))
     \<and> processedZip (processFiles st (Some archive) (Some (Parsed (JArr (pre @ g # post)))))
          = processedZip (processFiles st (Some archive) (Some (Parsed (JArr (pre @ g' # post)))))
     \<and> status (processFiles st (Some archive) (Some (Parsed (JArr (pre @ g # post)))))
          = status (processFiles st (Some archive) (Some (Parsed (JArr (pre @ g' # post)))))
     \<and> errorMessage (processFiles st (Some archive) (Some (Parsed (JArr (pre @ g # post)))))
          = errorMessage (processFiles st (Some archive) (Some (Parsed (JArr (pre @ g' # post)))))
     \<and> reads (processFiles st (Some archive) (Some (Parsed (JArr (pre @ g # post)))))
          = reads (processFiles st (Some archive) (Some (Parsed (JArr (pre @ g' # post)))))"
proof -
  let ?d = "debug st @ [StartingFileProcessing, JsonConfigurationLoaded]"
  obtain r1 f1 o1 e1 where
    run: "processFolderConfigs sourceZip (pre @ g # post) ([], [], ?d) = (r1, (f1, o1, e1))"
    by (metis prod_cases3)
  from processFolderConfigs_without_not_found [OF nf g g' n run] obtain e2 where
    run': "processFolderConfigs sourceZip (pre @ g' # post) ([], [], ?d) = (r1, (f1, o1, e2))"
    by blast
  from load run run' show ?thesis
    by (cases r1) (simp_all add: processFiles_def tryBlock_def Let_def)
qed

text \<open>
  On a ZIP archive, a link that resolves to no entry adds two lines to the log, the
  second being the warning that the file was not found, and changes neither the
  statistics of its group nor the output archive; the loop goes on. This holds in the run
  with insert and update counts (part_002 lines 685 to 710) and in the ZIP loop of
  part_001 (lines 307 to 320). A run over the configuration without that link ends with
  the same statistics for every group, the same output archive, the same status and the
  same error.
\<close>

lemma zip_link_not_found_is_skipped:
  assumes "findFileInZip sourceZip l = None"
    and "loadAsync archive = Inr sourceZip"
    and "js_get g ''Links'' = Some (JArr (ls1 @ JStr l # ls2))"
    and "js_get g' ''Links'' = Some (JArr (ls1 @ ls2))"
    and "js_get g' ''Review Text'' = js_get g ''Review Text''"
  shows "processLink sourceZip folderName (JStr l) (folderStat, out, dbg)
        = (None, (folderStat, out, dbg @ [ProcessingFile (JStr l), WarningFileNotFound l]))
     \<and> processLink_part_001 (zipContent sourceZip) folderName (JStr l) (plainStat, out, dbg)
        = (None, (plainStat, out, dbg @ [ProcessingFile (JStr l), WarningFileNotFound l]))
     \<and> folderStats (processFiles st (Some archive) (Some (Parsed (JArr (pre @ g # post)))))
          = folderStats (processFiles st (Some archive) (Some (Parsed (JArr (pre @ g' # post)))))
     \<and> processedZip (processFiles st (Some archive) (Some (Parsed (JArr (pre @ g # post)))))
          = processedZip (processFiles st (Some archive) (Some (Parsed (JArr (pre @ g' # post)))))
     \<and> status (processFiles st (Some archive) (Some (Parsed (JArr (pre @ g # post)))))
          = status (processFiles st (Some archive) (Some (Parsed (JArr (pre @ g' # post)))))
     \<and> errorMessage (processFiles st (Some archive) (Some (Parsed (JArr (pre @ g # post)))))
          = errorMessage (processFiles st (Some archive) (Some (Parsed (JArr (pre @ g' # post)))))"
proof -
  have "processLink_part_001 (zipContent sourceZip) folderName (JStr l) (plainStat, out, dbg)
        = (None, (plainStat, out, dbg @ [ProcessingFile (JStr l), WarningFileNotFound l]))"
    using assms(1) by (simp add: processLink_part_001_def zipContent_def)
  then show ?thesis
    using processLink_not_found [OF assms(1)]
      processFiles_without_not_found [OF assms(1) assms(2) assms(3) assms(4) assms(5)]
    by simp
qed

text \<open>
  In the TAR loop of part_001 (lines 275 to 287) the resolver is
  \<^verbatim>\<open>findFileInTar\<close>. With the reader tar-js provides, the call throws for every
  link, found or not: the loop never reaches the branch that logs the warning.
\<close>

lemma processLink_part_001_tar_throws:
  "processLink_part_001 (findFileInTar None) folderName (JStr l) (plainStat, out, dbg)
     = (Some TypeError, (plainStat, out, dbg @ [ProcessingFile (JStr l)]))"
  by (simp add: processLink_part_001_def findFileInTar_def)

text \<open>
  C9. The claim holds on the ZIP loops and fails on the TAR loop of part_001 (lines 275
  to 287). For the archive \<^verbatim>\<open>in.tar\<close> and a configuration with one group whose only
  link is \<^verbatim>\<open>missing.txt\<close>, the run of part_001 ends with the status
  \<^verbatim>\<open>error\<close>, without the warning in the log, without statistics and without an output
  archive. On a ZIP archive that has no such entry, the same configuration gives the
  warning, a group with no files and a completed run.
\<close>

theorem tar_link_not_found_aborts:
  "processFiles_part_001 example_state (Some tar_archive)
       (Some (Parsed (JArr [group_missing_link])))
     = \<lparr>status = StatusError, errorMessage = Some TypeError, processedZip = None,
        debug = [StartingFileProcessing, JsonConfigurationLoaded, ProcessingTarFile,
                 ProcessingFolder (Some (JStr ''G'')), ProcessingFile (JStr ''missing.txt''),
                 ErrorDuringProcessing TypeError],
        folderStats = [], reads = [ReadJsonFile, ReadArchiveFile]\<rparr>
   \<and> processFiles_part_001 example_state (Some flat_archive)
       (Some (Parsed (JArr [group_missing_link])))
     = \<lparr>status = StatusSuccess, errorMessage = None, processedZip = Some [],
        debug = [StartingFileProcessing, JsonConfigurationLoaded, ProcessingZipFile,
                 ProcessingFolder (Some (JStr ''G'')), ProcessingFile (JStr ''missing.txt''),
                 WarningFileNotFound ''missing.txt'', FileProcessingCompleted],
        folderStats = [\<lparr>statName = Some (JStr ''G''), statFileCount = 0, statFiles = []\<rparr>],
        reads = [ReadJsonFile, ReadArchiveFile]\<rparr>"
  by (simp add: example_state_def tar_archive_def flat_archive_def group_missing_link_def
      part_001_eval resolver_eval path_eval)

section \<open>From the source archive to the output archive\<close>

lemma find_append_first:
  "\<forall>x\<in>set pre. \<not> P x \<Longrightarrow> P e \<Longrightarrow> find P (pre @ e # post) = Some e"
  by (induction pre) auto

lemma findFileInZip_first_tail_match:
  assumes e: "\<not> dir e" "normalizeFilePath (zname e) = zname e" "zname e \<noteq> []"
    and t: "suffix (split_slash (normalizeFilePath sp)) (split_slash (zname e))"
    and pre: "\<forall>x\<in>set pre. \<not> suffix (split_slash (normalizeFilePath sp))
                (split_slash (normalizeFilePath (zname x)))"
    and post: "\<forall>x\<in>set post. zname x \<noteq> normalizeFilePath sp"
  shows "findFileInZip (pre @ e # post) sp = Some e"
proof -
  define n where "n = normalizeFilePath sp"
  have nn: "normalizeFilePath n = n" by (simp add: n_def normalizeFilePath_idem)
  have pre_name: "zname x \<noteq> k" if "x \<in> set pre" "normalizeFilePath k = k"
      "suffix (split_slash n) (split_slash k)" for x k
    using that pre by (auto simp: n_def)
  have pre_n: "\<forall>x\<in>set pre. zname x \<noteq> n"
    using pre_name nn by auto
  have pre_e: "\<forall>x\<in>set pre. zname x \<noteq> zname e"
    using pre_name e(2) t by (auto simp: n_def)
  have by_name: "zip_file (pre @ e # post) (zname e) = Some e"
    using pre_e e(1) by (simp add: zip_file_def find_append_first)
  show ?thesis
  proof (cases "zname e = n")
    case True
    with by_name show ?thesis by (simp add: findFileInZip_def flip: n_def)
  next
    case False
    have "find (\<lambda>x. zname x = n) (pre @ e # post) = None"
      using pre_n False post by (auto simp: find_None_iff n_def)
    then have direct: "zip_file (pre @ e # post) n = None"
      by (simp add: zip_file_def)
    have "find (tailMatches n) (map normalizeFilePath (zip_keys (pre @ e # post)))
        = map_option (\<lambda>x. normalizeFilePath (zname x))
            (find (\<lambda>x. tailMatches n (normalizeFilePath (zname x))) (pre @ e # post))"
      by (simp only: zip_keys_def map_map comp_def find_map_comp)
    also have "find (\<lambda>x. tailMatches n (normalizeFilePath (zname x))) (pre @ e # post) = Some e"
      using pre t e(2) by (intro find_append_first) (auto simp: tailMatches_suffix n_def)
    finally have "find (tailMatches n) (map normalizeFilePath (zip_keys (pre @ e # post)))
        = Some (zname e)"
      using e(2) by simp
    with direct by_name e(3) show ?thesis
      by (simp add: findFileInZip_def flip: n_def)
  qed
qed

text \<open>The output archive only grows, and a resolved link of a completed loop is in it.\<close>

lemma processLink_part_001_out:
  "processLink_part_001 resolve folderName link (stat, out, d) = (r, (stat', out', d')) \<Longrightarrow>
   \<exists>ws. out' = out @ ws"
  by (auto simp: processLink_part_001_def Let_def
      split: json.splits option.splits sum.splits if_splits)

lemma processLinks_part_001_out:
  "processLinks_part_001 resolve folderName links (stat, out, d) = (r, (stat', out', d')) \<Longrightarrow>
   \<exists>ws. out' = out @ ws"
proof (induction links arbitrary: stat out d)
  case Nil
  then show ?case by simp
next
  case (Cons link links)
  obtain r1 f1 o1 e1 where
    step: "processLink_part_001 resolve folderName link (stat, out, d) = (r1, (f1, o1, e1))"
    by (metis prod_cases3)
  from processLink_part_001_out [OF step] obtain ws0 where o1: "o1 = out @ ws0" by blast
  show ?case
  proof (cases r1)
    case None
    with Cons.prems step have
      "processLinks_part_001 resolve folderName links (f1, o1, e1) = (r, (stat', out', d'))"
      by simp
    from Cons.IH [OF this] o1 show ?thesis by auto
  next
    case (Some e)
    with Cons.prems step o1 show ?thesis by auto
  qed
qed

lemma processLinks_part_001_written:
  assumes res: "resolve l = Inr (Some fileContent)"
  shows "JStr l \<in> set links \<Longrightarrow>
   processLinks_part_001 resolve folderName links (stat, out, d) = (None, (stat', out', d')) \<Longrightarrow>
   \<exists>ws1 ws2. out' = out @ ws1 @ (folderName, baseName l, fileContent) # ws2"
proof (induction links arbitrary: stat out d)
  case Nil
  then show ?case by simp
next
  case (Cons link links)
  obtain r1 f1 o1 e1 where
    step: "processLink_part_001 resolve folderName link (stat, out, d) = (r1, (f1, o1, e1))"
    by (metis prod_cases3)
  with Cons.prems(2) have r1: "r1 = None"
    by (cases r1) auto
  with Cons.prems(2) step have
    rest: "processLinks_part_001 resolve folderName links (f1, o1, e1) = (None, (stat', out', d'))"
    by simp
  show ?case
  proof (cases "link = JStr l")
    case True
    with step res have "o1 = out @ [(folderName, baseName l, fileContent)]"
      by (simp add: processLink_part_001_def Let_def)
    moreover from processLinks_part_001_out [OF rest] obtain ws where "out' = o1 @ ws" by blast
    ultimately have "out' = out @ [] @ (folderName, baseName l, fileContent) # ws" by simp
    then show ?thesis by blast
  next
    case False
    with Cons.prems(1) have "JStr l \<in> set links" by simp
    from Cons.IH [OF this rest] obtain ws1 ws2 where
      "out' = o1 @ ws1 @ (folderName, baseName l, fileContent) # ws2" by blast
    moreover from processLink_part_001_out [OF step] obtain ws0 where "o1 = out @ ws0" by blast
    ultimately have "out' = out @ (ws0 @ ws1) @ (folderName, baseName l, fileContent) # ws2"
      by simp
    then show ?thesis by blast
  qed
qed

lemma processFolderConfig_part_001_out:
  assumes a: "processFolderConfig_part_001 resolve c (stats, out, d) = (r, (stats', out', d'))"
  shows "\<exists>ws. out' = out @ ws"
proof (cases "\<not> truthy c \<or> \<not> typeof_object c")
  case True
  with a show ?thesis by (auto simp: processFolderConfig_part_001_def)
next
  case False
  show ?thesis
  proof (cases "linksOf c")
    case (Inl e)
    with False a show ?thesis by (auto simp: processFolderConfig_part_001_def Let_def split: if_splits)
  next
    case (Inr links)
    let ?n = "js_get c ''Review Text''"
    let ?init = "\<lparr>statName = ?n, statFileCount = 0, statFiles = []\<rparr>"
    obtain r1 f1 o1 e1 where
      run: "processLinks_part_001 resolve ?n links (?init, out, d @ [ProcessingFolder ?n])
              = (r1, (f1, o1, e1))"
      by (metis prod_cases3)
    from processLinks_part_001_out [OF run] obtain ws where "o1 = out @ ws" by blast
    with False Inr run a show ?thesis
      by (cases r1) (auto simp: processFolderConfig_part_001_def Let_def split: if_splits)
  qed
qed

lemma processFolderConfigs_part_001_out:
  "processFolderConfigs_part_001 resolve cs (stats, out, d) = (r, (stats', out', d')) \<Longrightarrow>
   \<exists>ws. out' = out @ ws"
proof (induction cs arbitrary: stats out d)
  case Nil
  then show ?case by simp
next
  case (Cons c cs)
  obtain r1 f1 o1 e1 where
    step: "processFolderConfig_part_001 resolve c (stats, out, d) = (r1, (f1, o1, e1))"
    by (metis prod_cases3)
  from processFolderConfig_part_001_out [OF step] obtain ws0 where o1: "o1 = out @ ws0" by blast
  show ?case
  proof (cases r1)
    case None
    with Cons.prems step have
      "processFolderConfigs_part_001 resolve cs (f1, o1, e1) = (r, (stats', out', d'))"
      by simp
    from Cons.IH [OF this] o1 show ?thesis by auto
  next
    case (Some e)
    with Cons.prems step o1 show ?thesis by auto
  qed
qed

lemma processFolderConfig_part_001_written:
  assumes res: "resolve l = Inr (Some fileContent)"
    and g: "js_get g ''Links'' = Some (JArr links)" and l: "JStr l \<in> set links"
    and run: "processFolderConfig_part_001 resolve g (stats, out, d) = (None, (stats', out', d'))"
  shows "\<exists>ws1 ws2. out' = out @ ws1 @ (js_get g ''Review Text'', baseName l, fileContent) # ws2"
proof -
  let ?n = "js_get g ''Review Text''"
  let ?init = "\<lparr>statName = ?n, statFileCount = 0, statFiles = []\<rparr>"
  have og: "truthy g \<and> typeof_object g" using g by (rule js_get_Some_object)
  have lg: "linksOf g = Inr links" using g by (simp add: linksOf_def)
  obtain r1 f1 o1 e1 where
    links: "processLinks_part_001 resolve ?n links (?init, out, d @ [ProcessingFolder ?n])
              = (r1, (f1, o1, e1))"
    by (metis prod_cases3)
  with og lg run have "r1 = None" and "out' = o1"
    by (cases r1; auto simp: processFolderConfig_part_001_def Let_def split: if_splits)+
  with processLinks_part_001_written [where resolve = resolve and l = l, OF res l] links
  show ?thesis by blast
qed

lemma processFolderConfigs_part_001_written:
  assumes res: "resolve l = Inr (Some fileContent)"
    and g: "js_get g ''Links'' = Some (JArr links)" and l: "JStr l \<in> set links"
  shows "g \<in> set cs \<Longrightarrow>
    processFolderConfigs_part_001 resolve cs (stats, out, d) = (None, (stats', out', d')) \<Longrightarrow>
    \<exists>ws1 ws2. out' = out @ ws1 @ (js_get g ''Review Text'', baseName l, fileContent) # ws2"
proof (induction cs arbitrary: stats out d)
  case Nil
  then show ?case by simp
next
  case (Cons c cs)
  obtain r1 f1 o1 e1 where
    step: "processFolderConfig_part_001 resolve c (stats, out, d) = (r1, (f1, o1, e1))"
    by (metis prod_cases3)
  with Cons.prems(2) have r1: "r1 = None"
    by (cases r1) auto
  with Cons.prems(2) step have
    rest: "processFolderConfigs_part_001 resolve cs (f1, o1, e1) = (None, (stats', out', d'))"
    by simp
  show ?case
  proof (cases "c = g")
    case True
    from processFolderConfig_part_001_written [where resolve = resolve and l = l, OF res g l]
      step r1 True obtain ws1 ws2 where
      "o1 = out @ ws1 @ (js_get g ''Review Text'', baseName l, fileContent) # ws2" by blast
    moreover from processFolderConfigs_part_001_out [OF rest] obtain ws where "out' = o1 @ ws"
      by blast
    ultimately have
      "out' = out @ ws1 @ (js_get g ''Review Text'', baseName l, fileContent) # (ws2 @ ws)"
      by simp
    then show ?thesis by blast
  next
    case False
    with Cons.prems(1) have "g \<in> set cs" by simp
    from Cons.IH [OF this rest] obtain ws1 ws2 where
      "out' = o1 @ ws1 @ (js_get g ''Review Text'', baseName l, fileContent) # ws2" by blast
    moreover from processFolderConfig_part_001_out [OF step] obtain ws0 where "o1 = out @ ws0"
      by blast
    ultimately have
      "out' = out @ (ws0 @ ws1) @ (js_get g ''Review Text'', baseName l, fileContent) # ws2"
      by simp
    then show ?thesis by blast
  qed
qed

lemma processFiles_part_001_zip_success:
  assumes ok: "status (processFiles_part_001 st (Some archive) (Some (Parsed (JArr cs)))) = StatusSuccess"
    and zip: "\<not> isTarFile archive"
  shows "\<exists>z stats out dbg. loadAsync archive = Inr z
     \<and> processFolderConfigs_part_001 (zipContent z) cs
          ([], [], debug st @ [StartingFileProcessing, JsonConfigurationLoaded, ProcessingZipFile])
          = (None, (stats, out, dbg))
     \<and> processedZip (processFiles_part_001 st (Some archive) (Some (Parsed (JArr cs)))) = Some out"
proof (cases "loadAsync archive")
  case (Inl msg)
  with ok zip show ?thesis
    by (simp add: processFiles_part_001_def tryBlock_part_001_def Let_def)
next
  case (Inr z)
  obtain r1 f1 o1 e1 where
    run: "processFolderConfigs_part_001 (zipContent z) cs
          ([], [], debug st @ [StartingFileProcessing, JsonConfigurationLoaded, ProcessingZipFile])
            = (r1, (f1, o1, e1))"
    by (metis prod_cases3)
  with Inr ok zip show ?thesis
    by (cases r1)
       (simp_all add: processFiles_part_001_def tryBlock_part_001_def finish_part_001_def Let_def)
qed

lemma fold_store_write_other:
  "\<forall>w\<in>set ws. write_path w \<noteq> p \<Longrightarrow> fold store_write ws m p = m p"
  by (induction ws arbitrary: m) (auto simp: store_write_def split: prod.splits)

lemma archive_files_last_write:
  assumes "\<forall>w\<in>set ws2. write_path w \<noteq> write_path (folderName, fname, data)"
  shows "archive_files (ws1 @ (folderName, fname, data) # ws2)
           (write_path (folderName, fname, data)) = Some data"
  using assms by (simp add: archive_files_def fold_store_write_other store_write_def)

text \<open>
  C6 (as amended). When the entry \<^verbatim>\<open>a/b/c.txt\<close> is a file, no earlier entry of the
  archive ends with the segments \<^verbatim>\<open>b/c.txt\<close>, and no later entry is stored under
  exactly \<^verbatim>\<open>b/c.txt\<close>, the link \<^verbatim>\<open>b/c.txt\<close> resolves to that entry. A completed
  run of part_001 on that ZIP archive, over a configuration with a group named by a
  non-empty string whose links contain \<^verbatim>\<open>b/c.txt\<close>, writes the entry's bytes under
  the group's directory with the name \<^verbatim>\<open>c.txt\<close>, and the output archive holds them
  there unless a later write goes to the same path.
\<close>

theorem round_trip_link_to_output:
  assumes "\<not> isTarFile archive" and "loadAsync archive = Inr (pre @ e # post)"
    and "zname e = ''a/b/c.txt''" and "\<not> dir e"
    and "\<forall>x\<in>set pre. \<not> suffix [''b'', ''c.txt''] (split_slash (normalizeFilePath (zname x)))"
    and "\<forall>x\<in>set post. zname x \<noteq> ''b/c.txt''"
    and "g \<in> set groups"
    and "js_get g ''Review Text'' = Some (JStr groupName)" and "groupName \<noteq> []"
    and "js_get g ''Links'' = Some (JArr links)" and "JStr ''b/c.txt'' \<in> set links"
    and "status (processFiles_part_001 st (Some archive) (Some (Parsed (JArr groups))))
           = StatusSuccess"
  shows "findFileInZip (pre @ e # post) ''b/c.txt'' = Some e
     \<and> (\<exists>ws1 ws2.
          processedZip (processFiles_part_001 st (Some archive) (Some (Parsed (JArr groups))))
            = Some (ws1 @ (Some (JStr groupName), ''c.txt'', content e) # ws2)
          \<and> ((\<forall>w\<in>set ws2. write_path w \<noteq> forceTrailingSlash groupName @ ''c.txt'') \<longrightarrow>
               archive_files (ws1 @ (Some (JStr groupName), ''c.txt'', content e) # ws2)
                 (forceTrailingSlash groupName @ ''c.txt'') = Some (content e)))"
proof -
  have n: "normalizeFilePath ''b/c.txt'' = ''b/c.txt''"
    and na: "normalizeFilePath ''a/b/c.txt'' = ''a/b/c.txt''"
    by (simp_all add: path_eval)
  have sb: "split_slash ''b/c.txt'' = [''b'', ''c.txt'']"
    and sa: "split_slash ''a/b/c.txt'' = [''a'', ''b'', ''c.txt'']"
    by simp_all
  have res: "findFileInZip (pre @ e # post) ''b/c.txt'' = Some e"
  proof (rule findFileInZip_first_tail_match)
    show "\<not> dir e" by fact
    show "normalizeFilePath (zname e) = zname e" using assms(3) na by simp
    show "zname e \<noteq> []" using assms(3) by simp
    show "suffix (split_slash (normalizeFilePath ''b/c.txt'')) (split_slash (zname e))"
      using assms(3) by (simp only: n sb sa) (simp add: suffix_to_prefix)
    show "\<forall>x\<in>set pre. \<not> suffix (split_slash (normalizeFilePath ''b/c.txt''))
            (split_slash (normalizeFilePath (zname x)))"
      using assms(5) by (simp only: n sb)
    show "\<forall>x\<in>set post. zname x \<noteq> normalizeFilePath ''b/c.txt''"
      using assms(6) by (simp only: n)
  qed
  then have res': "zipContent (pre @ e # post) ''b/c.txt'' = Inr (Some (content e))"
    by (simp add: zipContent_def)
  have base: "baseName ''b/c.txt'' = ''c.txt''"
    by (simp add: baseName_def)
  from processFiles_part_001_zip_success [OF assms(12) assms(1)] assms(2)
  obtain stats out dbg where
    run: "processFolderConfigs_part_001 (zipContent (pre @ e # post)) groups
            ([], [], debug st @ [StartingFileProcessing, JsonConfigurationLoaded, ProcessingZipFile])
          = (None, (stats, out, dbg))"
    and pz: "processedZip (processFiles_part_001 st (Some archive) (Some (Parsed (JArr groups))))
          = Some out"
    by auto
  from processFolderConfigs_part_001_written
    [where resolve = "zipContent (pre @ e # post)" and l = "''b/c.txt''",
      OF res' assms(10) assms(11) assms(7) run] base assms(8)
  obtain ws1 ws2 where
    out: "out = ws1 @ (Some (JStr groupName), ''c.txt'', content e) # ws2"
    by auto
  have path: "write_path (Some (JStr groupName), ''c.txt'', content e)
      = forceTrailingSlash groupName @ ''c.txt''"
    using assms(9) by (simp add: write_path_def folder_root_def)
  have "(\<forall>w\<in>set ws2. write_path w \<noteq> forceTrailingSlash groupName @ ''c.txt'') \<longrightarrow>
      archive_files (ws1 @ (Some (JStr groupName), ''c.txt'', content e) # ws2)
        (forceTrailingSlash groupName @ ''c.txt'') = Some (content e)"
    using archive_files_last_write [of ws2 "Some (JStr groupName)" "''c.txt''" "content e" ws1]
    by (simp only: path) blast
  with res pz out show ?thesis by blast
qed

theorem round_trip_link_to_output_witness:
  "findFileInZip [\<lparr>zname = ''a/'', dir = True, content = []\<rparr>,
                  \<lparr>zname = ''a/b/c.txt'', dir = False, content = [5, 6]\<rparr>,
                  \<lparr>zname = ''d.txt'', dir = False, content = [7]\<rparr>] ''b/c.txt''
     = Some \<lparr>zname = ''a/b/c.txt'', dir = False, content = [5, 6]\<rparr>
   \<and> status (processFiles_part_001 example_state (Some plain_archive)
        (Some (Parsed (JArr [group_G])))) = StatusSuccess
   \<and> processedZip (processFiles_part_001 example_state (Some plain_archive)
        (Some (Parsed (JArr [group_G]))))
       = Some [(Some (JStr ''G''), ''c.txt'', [5, 6])]
   \<and> archive_files [(Some (JStr ''G''), ''c.txt'', [5, 6])] ''G/c.txt'' = Some [5, 6]"
proof -
  have run: "processFiles_part_001 example_state (Some plain_archive)
        (Some (Parsed (JArr [group_G])))
      = \<lparr>status = StatusSuccess, errorMessage = None,
         processedZip = Some [(Some (JStr ''G''), ''c.txt'', [5, 6])],
         debug = [StartingFileProcessing, JsonConfigurationLoaded, ProcessingZipFile,
           ProcessingFolder (Some (JStr ''G'')), ProcessingFile (JStr ''b/c.txt''),
           SuccessfullyProcessedPlainFile ''c.txt'', FileProcessingCompleted],
         folderStats = [\<lparr>statName = Some (JStr ''G''), statFileCount = 1,
           statFiles = [''c.txt'']\<rparr>],
         reads = [ReadJsonFile, ReadArchiveFile]\<rparr>"
    by (simp add: example_state_def plain_archive_def group_G_def part_001_eval)
  have h1: "\<not> isTarFile plain_archive"
    by (simp add: plain_archive_def part_001_eval)
  have h2: "loadAsync plain_archive
      = Inr ([\<lparr>zname = ''a/'', dir = True, content = []\<rparr>]
             @ \<lparr>zname = ''a/b/c.txt'', dir = False, content = [5, 6]\<rparr>
             # [\<lparr>zname = ''d.txt'', dir = False, content = [7]\<rparr>])"
    by (simp add: plain_archive_def)
  have h5: "\<forall>x\<in>set [\<lparr>zname = ''a/'', dir = True, content = []\<rparr>].
      \<not> suffix [''b'', ''c.txt''] (split_slash (normalizeFilePath (zname x)))"
    by (simp add: path_eval suffix_to_prefix)
  have h6: "\<forall>x\<in>set [\<lparr>zname = ''d.txt'', dir = False, content = [7]\<rparr>]. zname x \<noteq> ''b/c.txt''"
    by simp
  have h12: "status (processFiles_part_001 example_state (Some plain_archive)
      (Some (Parsed (JArr [group_G])))) = StatusSuccess"
    by (simp add: run)
  have "findFileInZip ([\<lparr>zname = ''a/'', dir = True, content = []\<rparr>]
             @ \<lparr>zname = ''a/b/c.txt'', dir = False, content = [5, 6]\<rparr>
             # [\<lparr>zname = ''d.txt'', dir = False, content = [7]\<rparr>]) ''b/c.txt''
      = Some \<lparr>zname = ''a/b/c.txt'', dir = False, content = [5, 6]\<rparr>"
    using round_trip_link_to_output [OF h1 h2 _ _ h5 h6 _ _ _ _ _ h12,
        of group_G "''G''" "[JStr ''b/c.txt'']"]
    by (simp add: group_G_def)
  moreover have "archive_files [(Some (JStr ''G''), ''c.txt'', [5, 6])] ''G/c.txt'' = Some [5, 6]"
    by (simp add: archive_eval)
  ultimately show ?thesis using run by simp
qed

text \<open>
  C6 as stated fails in three ways, each on an archive with a file \<^verbatim>\<open>a/b/c.txt\<close>
  and a group with the link \<^verbatim>\<open>b/c.txt\<close>. When another entry with the same last
  segments is listed first, the link resolves to that entry and the output holds its
  bytes. When an entry is stored under exactly \<^verbatim>\<open>b/c.txt\<close>, the link resolves to it,
  wherever it is listed. When a later link of the group has the same last segment, its
  bytes replace those written for \<^verbatim>\<open>b/c.txt\<close>.
\<close>

theorem round_trip_counterexample:
  "findFileInZip [\<lparr>zname = ''x/b/c.txt'', dir = False, content = [1]\<rparr>,
                  \<lparr>zname = ''a/b/c.txt'', dir = False, content = [2]\<rparr>] ''b/c.txt''
     = Some \<lparr>zname = ''x/b/c.txt'', dir = False, content = [1]\<rparr>
   \<and> status (processFiles_part_001 example_state (Some ambiguous_archive)
        (Some (Parsed (JArr [group_G])))) = StatusSuccess
   \<and> processedZip (processFiles_part_001 example_state (Some ambiguous_archive)
        (Some (Parsed (JArr [group_G]))))
       = Some [(Some (JStr ''G''), ''c.txt'', [1])]
   \<and> archive_files [(Some (JStr ''G''), ''c.txt'', [1])] ''G/c.txt'' = Some [1]
   \<and> findFileInZip [\<lparr>zname = ''a/b/c.txt'', dir = False, content = [2]\<rparr>,
                    \<lparr>zname = ''b/c.txt'', dir = False, content = [3]\<rparr>] ''b/c.txt''
     = Some \<lparr>zname = ''b/c.txt'', dir = False, content = [3]\<rparr>
   \<and> processedZip (processFiles_part_001 example_state (Some two_file_archive)
        (Some (Parsed (JArr [group_two_links]))))
       = Some [(Some (JStr ''G''), ''c.txt'', [2]), (Some (JStr ''G''), ''c.txt'', [4])]
   \<and> archive_files [(Some (JStr ''G''), ''c.txt'', [2]), (Some (JStr ''G''), ''c.txt'', [4])]
        ''G/c.txt'' = Some [4]"
  by (simp add: example_state_def ambiguous_archive_def two_file_archive_def group_G_def
      group_two_links_def part_001_eval archive_eval)

section \<open>The name of the output folder\<close>



























end
